theory Spec2Isabelle
  imports Main "HOL-Library.Word" "HOL-Library.AList"
begin

unbundle bit_operations_syntax

section \<open>Data model (common.h)\<close>

text \<open>
  A C++ \<^verbatim>\<open>char\<close> is one byte; \<^verbatim>\<open>std::string\<close> and \<^verbatim>\<open>std::vector<char>\<close> are byte lists.
  \<^verbatim>\<open>Socket\<close> is \<^verbatim>\<open>int\<close>; the value \<open>-1\<close> is the "no socket" sentinel of \<^verbatim>\<open>GetSocket\<close>.
  \<^verbatim>\<open>long long\<close> is a 64-bit word.
\<close>

type_synonym byte = char
type_synonym Socket = int

text \<open>
  \<^verbatim>\<open>enum class MessageType\<close> has the fixed underlying type \<^verbatim>\<open>int\<close>: an object of the
  enumeration can hold every 32-bit value, and \<^verbatim>\<open>static_cast<MessageType>(type_i32)\<close>
  keeps the value as it is. The eight enumerators are the values 0 to 7.
\<close>

type_synonym MessageType = "32 word"

definition PUBLIC_MESSAGE :: MessageType where "PUBLIC_MESSAGE = 0"
definition PRIVATE_MESSAGE :: MessageType where "PRIVATE_MESSAGE = 1"
definition SYSTEM_ANNOUNCEMENT :: MessageType where "SYSTEM_ANNOUNCEMENT = 2"
definition USER_JOINED :: MessageType where "USER_JOINED = 3"
definition USER_LEFT :: MessageType where "USER_LEFT = 4"
definition USER_LIST_REQUEST :: MessageType where "USER_LIST_REQUEST = 5"
definition USER_LIST_RESPONSE :: MessageType where "USER_LIST_RESPONSE = 6"
definition COMMAND_RESPONSE :: MessageType where "COMMAND_RESPONSE = 7"

lemmas MessageType_defs =
  PUBLIC_MESSAGE_def PRIVATE_MESSAGE_def SYSTEM_ANNOUNCEMENT_def USER_JOINED_def
  USER_LEFT_def USER_LIST_REQUEST_def USER_LIST_RESPONSE_def COMMAND_RESPONSE_def

definition enumerators :: "MessageType list" where
  "enumerators = [PUBLIC_MESSAGE, PRIVATE_MESSAGE, SYSTEM_ANNOUNCEMENT, USER_JOINED,
     USER_LEFT, USER_LIST_REQUEST, USER_LIST_RESPONSE, COMMAND_RESPONSE]"

record User =
  user_id :: int
  username :: string
  connected :: bool
  joined_at :: "64 word"

record Message =
  type :: MessageType
  timestamp :: "64 word"
  sender_username :: string
  target_username :: string
  content :: string

record LogEntry =
  log_timestamp :: "64 word"
  event_type :: MessageType
  actor :: string
  target :: string
  log_content :: string

section \<open>The environment of the program\<close>

text \<open>
  Everything the code reads or changes outside its local variables, passed explicitly:
  \<^item> \<open>g_users\<close>: the registry \<^verbatim>\<open>UserManager::g_users\<close>, an \<^verbatim>\<open>unordered_map\<close>, as an
    association list; its list order stands for the (unspecified) iteration order;
  \<^item> \<open>clock\<close>, \<open>ticks\<close>: the \<open>n\<close>-th call of \<^verbatim>\<open>NowEpochMs\<close> reads \<open>clock n\<close>;
  \<^item> \<open>inp s\<close>: what the successive \<^verbatim>\<open>::recv\<close> calls on socket \<open>s\<close> will deliver, one
    chunk per call at most; an empty chunk, or the end of the list, is a \<^verbatim>\<open>recv\<close> that
    returns \<open>n \<le> 0\<close> (end of stream or error);
  \<^item> \<open>out s\<close>: the bytes written to socket \<open>s\<close> so far;
  \<^item> \<open>broken s\<close>: \<^verbatim>\<open>::send\<close> on \<open>s\<close> returns \<open>n \<le> 0\<close>;
  \<^item> \<open>closed\<close>: the descriptors passed to \<^verbatim>\<open>::close\<close>;
  \<^item> \<open>heap_limit\<close>: the largest block of memory the allocator can provide; a request
    for more bytes throws \<^verbatim>\<open>std::bad_alloc\<close>;
  \<^item> \<open>log_file\<close>: the entries handed to \<^verbatim>\<open>LoggingService::Write\<close>, in order;
  \<^item> \<open>console_in\<close>: the lines \<^verbatim>\<open>Console::ReadLine\<close> will return (client side).
\<close>

record world =
  g_users :: "(string \<times> User \<times> Socket) list"
  clock :: "nat \<Rightarrow> 64 word"
  ticks :: nat
  inp :: "Socket \<Rightarrow> byte list list"
  out :: "Socket \<Rightarrow> byte list"
  broken :: "Socket \<Rightarrow> bool"
  closed :: "Socket set"
  heap_limit :: nat
  log_file :: "LogEntry list"
  console_in :: "string list"

definition NowEpochMs :: "world \<Rightarrow> 64 word \<times> world" where
  "NowEpochMs w = (clock w (ticks w), w\<lparr>ticks := Suc (ticks w)\<rparr>)"

section \<open>Wire codec (network.cpp)\<close>

text \<open>The exceptions: the \<^verbatim>\<open>std::runtime_error\<close> of the decoder, and \<^verbatim>\<open>std::bad_alloc\<close>.\<close>

datatype error = runtime_error string | bad_alloc

definition byte_of :: "'a::len word \<Rightarrow> byte" where
  "byte_of v = char_of (unat v)"

text \<open>\<^verbatim>\<open>htonl\<close> followed by copying the four bytes: the value in big-endian order.\<close>

definition write_int32 :: "32 word \<Rightarrow> byte list" where
  "write_int32 v = map (\<lambda>i. byte_of (drop_bit (i * 8) v AND 0xFF)) [3, 2, 1, 0]"

definition write_int64 :: "64 word \<Rightarrow> byte list" where
  "write_int64 uv = map (\<lambda>i. byte_of (drop_bit (i * 8) uv AND 0xFF)) (rev [0..<8])"

text \<open>\<^verbatim>\<open>static_cast<int32_t>(s.size())\<close> keeps the low 32 bits of the size.\<close>

definition write_string :: "string \<Rightarrow> byte list" where
  "write_string s = write_int32 (of_nat (length s)) @ s"

definition Serialize :: "Message \<Rightarrow> byte list" where
  "Serialize msg =
     write_int32 (type msg) @ write_int64 (timestamp msg) @
     write_string (sender_username msg) @ write_string (target_username msg) @
     write_string (content msg)"

text \<open>
  One step of \<^verbatim>\<open>uv = (uv << 8) | byte\<close>, and the big-endian value of a byte sequence
  (\<^verbatim>\<open>memcpy\<close> of four bytes followed by \<^verbatim>\<open>ntohl\<close> reads them in the same order).
\<close>

definition shl8_or :: "'a::len word \<Rightarrow> byte \<Rightarrow> 'a word" where
  "shl8_or uv c = push_bit 8 uv OR of_char c"

definition be_word :: "byte list \<Rightarrow> 'a::len word" where
  "be_word bs = foldl shl8_or 0 bs"

text \<open>
  The three reading lambdas of \<^verbatim>\<open>Deserialize\<close>; \<open>pos\<close> is returned updated.
  (\<^verbatim>\<open>size_t\<close> is 64 bits wide and \<open>pos\<close> never exceeds the size of the buffer, so the
  additions below cannot wrap.)
\<close>

definition read_int32 :: "byte list \<Rightarrow> nat \<Rightarrow> error + (32 word \<times> nat)" where
  "read_int32 data pos =
     (if pos + 4 > length data then Inl (runtime_error ''Deserialize: truncated int32'')
      else Inr (be_word (take 4 (drop pos data)), pos + 4))"

definition read_int64 :: "byte list \<Rightarrow> nat \<Rightarrow> error + (64 word \<times> nat)" where
  "read_int64 data pos =
     (if pos + 8 > length data then Inl (runtime_error ''Deserialize: truncated int64'')
      else Inr (be_word (take 8 (drop pos data)), pos + 8))"

definition read_string :: "byte list \<Rightarrow> nat \<Rightarrow> error + (string \<times> nat)" where
  "read_string data pos =
     (case read_int32 data pos of
        Inl e \<Rightarrow> Inl e
      | Inr (len, pos1) \<Rightarrow>
          if sint len < 0 \<or> pos1 + nat (sint len) > length data
          then Inl (runtime_error ''Deserialize: invalid string length'')
          else Inr (take (nat (sint len)) (drop pos1 data), pos1 + nat (sint len)))"

definition Deserialize :: "byte list \<Rightarrow> error + Message" where
  "Deserialize data =
     (case read_int32 data 0 of
        Inl e \<Rightarrow> Inl e
      | Inr (type_i32, p1) \<Rightarrow>
     (case read_int64 data p1 of
        Inl e \<Rightarrow> Inl e
      | Inr (ts, p2) \<Rightarrow>
     (case read_string data p2 of
        Inl e \<Rightarrow> Inl e
      | Inr (sender, p3) \<Rightarrow>
     (case read_string data p3 of
        Inl e \<Rightarrow> Inl e
      | Inr (tgt, p4) \<Rightarrow>
     (case read_string data p4 of
        Inl e \<Rightarrow> Inl e
      | Inr (cont, p5) \<Rightarrow>
          Inr \<lparr>type = type_i32, timestamp = ts, sender_username = sender,
               target_username = tgt, content = cont\<rparr>)))))"

text \<open>The messages the round-trip property is about.\<close>

definition valid_Message :: "Message \<Rightarrow> bool" where
  "valid_Message m \<longleftrightarrow>
     type m \<in> set enumerators \<and>
     length (sender_username m) < 2 ^ 31 \<and>
     length (target_username m) < 2 ^ 31 \<and>
     length (content m) < 2 ^ 31"

section \<open>Transport (network.cpp)\<close>

text \<open>
  \<^verbatim>\<open>send_all\<close>: the loop calls \<^verbatim>\<open>::send\<close> until the buffer is written. The system call
  is the boundary of the model: on a socket that is not broken it takes the rest of the
  buffer, on a broken one it returns \<open>n \<le> 0\<close>. An empty buffer never reaches \<^verbatim>\<open>::send\<close>.
\<close>

definition send_all :: "Socket \<Rightarrow> byte list \<Rightarrow> world \<Rightarrow> bool \<times> world" where
  "send_all sock buf w =
     (if buf = [] then (True, w)
      else if broken w sock then (False, w)
      else (True, w\<lparr>out := (out w)(sock := out w sock @ buf)\<rparr>))"

text \<open>\<^verbatim>\<open>::recv(sock, buf, want, 0)\<close>: at most \<open>want\<close> bytes of the next chunk.\<close>

definition recv :: "Socket \<Rightarrow> nat \<Rightarrow> world \<Rightarrow> byte list \<times> world" where
  "recv sock want w =
     (case inp w sock of
        [] \<Rightarrow> ([], w)
      | c # cs \<Rightarrow>
          if length c \<le> want then (c, w\<lparr>inp := (inp w)(sock := cs)\<rparr>)
          else (take want c, w\<lparr>inp := (inp w)(sock := drop want c # cs)\<rparr>))"

text \<open>\<^verbatim>\<open>recv_all\<close>; \<open>buf\<close> holds the \<open>recvd\<close> bytes read so far.\<close>

function recv_all :: "Socket \<Rightarrow> nat \<Rightarrow> byte list \<Rightarrow> world \<Rightarrow> byte list option \<times> world" where
  "recv_all sock len buf w =
     (if length buf < len then
        (case recv sock (len - length buf) w of
           (d, w1) \<Rightarrow> if d = [] then (None, w1) else recv_all sock len (buf @ d) w1)
      else (Some buf, w))"
  by pat_completeness auto
termination
  by (relation "measure (\<lambda>(sock, len, buf, w). len - length buf)")
     (auto simp flip: length_greater_0_conv)

definition frame :: "Message \<Rightarrow> byte list" where
  "frame msg = write_int32 (of_nat (length (Serialize msg))) @ Serialize msg"

definition SendMessage :: "Socket \<Rightarrow> Message \<Rightarrow> world \<Rightarrow> bool \<times> world" where
  "SendMessage sock msg w =
     (let serialized = Serialize msg;
          net_len = write_int32 (of_nat (length serialized))
      in case send_all sock net_len w of
           (False, w1) \<Rightarrow> (False, w1)
         | (True, w1) \<Rightarrow>
             (case send_all sock serialized w1 of
                (False, w2) \<Rightarrow> (False, w2)
              | (True, w2) \<Rightarrow> (True, w2)))"

text \<open>
  \<^verbatim>\<open>ReceiveMessage\<close>. The result is \<open>Inr None\<close> for \<^verbatim>\<open>std::nullopt\<close>, \<open>Inr (Some msg)\<close> for
  a message, and \<open>Inl e\<close> for an exception that leaves the function. The buffer
  \<^verbatim>\<open>std::vector<char> buf(total_len)\<close> is allocated before the \<^verbatim>\<open>try\<close> block, with the
  length the peer declared: when the allocator cannot provide that many bytes,
  \<^verbatim>\<open>std::bad_alloc\<close> is thrown and nothing catches it. The exception of \<^verbatim>\<open>Deserialize\<close>
  is thrown inside the \<^verbatim>\<open>try\<close> block and caught by \<^verbatim>\<open>catch (...)\<close>. (The other
  allocations of the program are of the size of data it already holds; they are taken to
  succeed.)
\<close>

definition ReceiveMessage :: "Socket \<Rightarrow> world \<Rightarrow> (error + Message option) \<times> world" where
  "ReceiveMessage sock w =
     (case recv_all sock 4 [] w of
        (None, w1) \<Rightarrow> (Inr None, w1)
      | (Some net_len, w1) \<Rightarrow>
          let total_len = (be_word net_len :: 32 word) in
          if sint total_len \<le> 0 then (Inr None, w1)
          else if heap_limit w1 < nat (sint total_len) then (Inl bad_alloc, w1)
          else
            (case recv_all sock (nat (sint total_len)) [] w1 of
               (None, w2) \<Rightarrow> (Inr None, w2)
             | (Some buf, w2) \<Rightarrow>
                 (case Deserialize buf of
                    Inl e \<Rightarrow> (Inr None, w2)
                  | Inr msg \<Rightarrow> (Inr (Some msg), w2))))"

definition Close :: "Socket \<Rightarrow> world \<Rightarrow> world" where
  "Close sock w = (if sock \<ge> 0 then w\<lparr>closed := insert sock (closed w)\<rparr> else w)"

section \<open>User registry (UserManager)\<close>

definition kAuthMaxRetries :: int where
  "kAuthMaxRetries = 3"

text \<open>
  Each operation holds \<^verbatim>\<open>g_mutex\<close> for its whole body, so each is one atomic step on the
  registry. \<^verbatim>\<open>g_users[k] = v\<close> replaces the value of a present key and adds an absent one.
\<close>

definition AddUser :: "User \<Rightarrow> Socket \<Rightarrow> world \<Rightarrow> world" where
  "AddUser user client_socket w =
     w\<lparr>g_users := AList.update (username user) (user, client_socket) (g_users w)\<rparr>"

definition RemoveUser :: "string \<Rightarrow> world \<Rightarrow> world" where
  "RemoveUser name w = w\<lparr>g_users := AList.delete name (g_users w)\<rparr>"

definition CheckUniqueness :: "string \<Rightarrow> world \<Rightarrow> bool" where
  "CheckUniqueness name w \<longleftrightarrow> map_of (g_users w) name = None"

definition GetSocket :: "string \<Rightarrow> world \<Rightarrow> Socket" where
  "GetSocket name w =
     (case map_of (g_users w) name of None \<Rightarrow> - 1 | Some (user, sock) \<Rightarrow> sock)"

definition GetAllUsernames :: "world \<Rightarrow> string list" where
  "GetAllUsernames w = map fst (g_users w)"

text \<open>
  \<^verbatim>\<open>ForEachUserSocket\<close> copies the sockets under the lock and then runs the callback on
  each; \<open>st\<close> is whatever the callback changes (its captures, or the world).
\<close>

definition ForEachUserSocket :: "(Socket \<Rightarrow> 's \<Rightarrow> 's) \<Rightarrow> world \<Rightarrow> 's \<Rightarrow> 's" where
  "ForEachUserSocket callback w st =
     (let sockets = map (\<lambda>kv. snd (snd kv)) (g_users w)
      in foldl (\<lambda>st s. callback s st) st sockets)"

definition MakeServerCommand :: "string \<Rightarrow> world \<Rightarrow> Message \<times> world" where
  "MakeServerCommand text w =
     (case NowEpochMs w of
        (now, w1) \<Rightarrow>
          (\<lparr>type = COMMAND_RESPONSE, timestamp = now, sender_username = ''Server'',
            target_username = [], content = text\<rparr>, w1))"

section \<open>Logging (LoggingService)\<close>

text \<open>
  \<^verbatim>\<open>Write\<close> formats the entry and appends the line to the log file; the model keeps the
  entries themselves, in the order written.
\<close>

definition Write :: "LogEntry \<Rightarrow> world \<Rightarrow> world" where
  "Write entry w = w\<lparr>log_file := log_file w @ [entry]\<rparr>"

definition LogFromMessage :: "Message \<Rightarrow> world \<Rightarrow> world" where
  "LogFromMessage msg w =
     Write \<lparr>log_timestamp = timestamp msg, event_type = type msg,
            actor = sender_username msg, target = target_username msg,
            log_content = content msg\<rparr> w"

section \<open>Router (MessageRouter)\<close>

definition CollectAllSockets :: "world \<Rightarrow> Socket list" where
  "CollectAllSockets w = ForEachUserSocket (\<lambda>s sockets. sockets @ [s]) w []"

definition BroadcastPublic :: "Message \<Rightarrow> world \<Rightarrow> world" where
  "BroadcastPublic msg w =
     (let sockets = CollectAllSockets w
      in foldl (\<lambda>w s. snd (SendMessage s msg w)) w sockets)"

definition SendPrivate :: "Message \<Rightarrow> world \<Rightarrow> world" where
  "SendPrivate msg w =
     (let target_socket = GetSocket (target_username msg) w in
      if target_socket \<noteq> - 1 then snd (SendMessage target_socket msg w)
      else
        (case NowEpochMs w of
           (now, w1) \<Rightarrow>
             let notify = \<lparr>type = COMMAND_RESPONSE, timestamp = now,
                            sender_username = ''Server'', target_username = [],
                            content = ''USER_NOT_FOUND:'' @ target_username msg\<rparr>;
                 sender_socket = GetSocket (sender_username msg) w1
             in if sender_socket \<noteq> - 1 then snd (SendMessage sender_socket notify w1)
                else w1))"

section \<open>Command processor\<close>

fun Join :: "string list \<Rightarrow> string \<Rightarrow> string" where
  "Join [] sep = []"
| "Join [p] sep = p"
| "Join (p # q # ps) sep = p @ sep @ Join (q # ps) sep"

definition Process :: "Message \<Rightarrow> Socket \<Rightarrow> world \<Rightarrow> string \<times> world" where
  "Process msg client_socket w =
     (if type msg = USER_LIST_REQUEST then
        (let names = GetAllUsernames w;
             cont = Join names '','' in
         case NowEpochMs w of
           (now, w1) \<Rightarrow>
             let resp = \<lparr>type = USER_LIST_RESPONSE, timestamp = now,
                          sender_username = ''Server'', target_username = [],
                          content = cont\<rparr>
             in (''CONTINUE'', LogFromMessage resp (snd (SendMessage client_socket resp w1))))
      else if type msg = PRIVATE_MESSAGE then
        (''CONTINUE'', LogFromMessage msg (SendPrivate msg w))
      else if type msg = PUBLIC_MESSAGE then
        (''CONTINUE'', LogFromMessage msg (BroadcastPublic msg w))
      else if type msg = COMMAND_RESPONSE \<and> content msg = ''BYE'' then
        (case NowEpochMs w of
           (now, w1) \<Rightarrow>
             let ack = \<lparr>type = COMMAND_RESPONSE, timestamp = now,
                         sender_username = ''Server'', target_username = [],
                         content = ''GOODBYE''\<rparr>
             in (''DISCONNECT'', snd (SendMessage client_socket ack w1)))
      else
        (case NowEpochMs w of
           (now, w1) \<Rightarrow>
             let err = \<lparr>type = COMMAND_RESPONSE, timestamp = now,
                         sender_username = ''Server'', target_username = [],
                         content = ''UNKNOWN_COMMAND''\<rparr>
             in (''CONTINUE'', snd (SendMessage client_socket err w1))))"

section \<open>Authentication handshake (UserManager::Authenticate)\<close>

text \<open>
  The \<^verbatim>\<open>while (retries < kAuthMaxRetries)\<close> loop, started with \<open>retries = 0\<close>. The result
  is \<open>Inr\<close> of the optional user, or \<open>Inl e\<close> when \<^verbatim>\<open>ReceiveMessage\<close> threw: nothing in
  \<^verbatim>\<open>Authenticate\<close> catches.
\<close>

function Authenticate_loop ::
  "Socket \<Rightarrow> int \<Rightarrow> world \<Rightarrow> (error + User option) \<times> world" where
  "Authenticate_loop client_socket retries w =
     (if retries < kAuthMaxRetries then
        (case MakeServerCommand ''ENTER_USERNAME'' w of
           (prompt, w1) \<Rightarrow>
        (case SendMessage client_socket prompt w1 of
           (sent, w2) \<Rightarrow>
        (case ReceiveMessage client_socket w2 of
           (Inl e, w3) \<Rightarrow> (Inl e, w3)
         | (Inr None, w3) \<Rightarrow> (Inr None, w3)
         | (Inr (Some reply), w3) \<Rightarrow>
             if CheckUniqueness (content reply) w3 then
               (case NowEpochMs w3 of
                  (now, w4) \<Rightarrow>
                    let user = \<lparr>user_id = client_socket, username = content reply,
                                  connected = True, joined_at = now\<rparr>;
                        w5 = AddUser user client_socket w4
                    in (case MakeServerCommand ''USERNAME_ACCEPTED'' w5 of
                          (ok, w6) \<Rightarrow>
                            (Inr (Some user), snd (SendMessage client_socket ok w6))))
             else
               (case MakeServerCommand ''USERNAME_TAKEN'' w3 of
                  (taken, w4) \<Rightarrow>
                    Authenticate_loop client_socket (retries + 1)
                      (snd (SendMessage client_socket taken w4))))))
      else
        (case MakeServerCommand ''AUTH_FAILED'' w of
           (fail, w1) \<Rightarrow> (Inr None, snd (SendMessage client_socket fail w1))))"
  by pat_completeness auto
termination
  by (relation "measure (\<lambda>(client_socket, retries, w). nat (kAuthMaxRetries - retries))") auto

definition Authenticate :: "Socket \<Rightarrow> world \<Rightarrow> (error + User option) \<times> world" where
  "Authenticate client_socket w = Authenticate_loop client_socket 0 w"

section \<open>Session (ClientHandler::ServeClient)\<close>

text \<open>
  The two statements of the receive loop that enrich an incoming message before it is
  processed: the sender is set, and a zero timestamp is replaced by the current time.
\<close>

definition stamp_incoming :: "User \<Rightarrow> Message \<Rightarrow> world \<Rightarrow> Message \<times> world" where
  "stamp_incoming user incoming0 w =
     (let incoming = incoming0\<lparr>sender_username := username user\<rparr>
      in if timestamp incoming = 0 then
           (case NowEpochMs w of (now, w1) \<Rightarrow> (incoming\<lparr>timestamp := now\<rparr>, w1))
         else (incoming, w))"

text \<open>
  The main receive loop \<^verbatim>\<open>while (user.connected)\<close>. It ends when the peer is gone or
  says goodbye, or when \<^verbatim>\<open>ReceiveMessage\<close> throws; the first component of the result is
  the exception that leaves the loop, if any. \<open>None\<close> stands for a loop that never ends.
\<close>

partial_function (option) ServeClient_loop ::
  "User \<Rightarrow> Socket \<Rightarrow> world \<Rightarrow> (error option \<times> world) option" where
  "ServeClient_loop user client_socket w =
     (if connected user then
        (case ReceiveMessage client_socket w of
           (Inl e, w1) \<Rightarrow> Some (Some e, w1)
         | (Inr None, w1) \<Rightarrow> Some (None, w1)
         | (Inr (Some incoming_opt), w1) \<Rightarrow>
             (case stamp_incoming user incoming_opt w1 of
                (incoming, w2) \<Rightarrow>
                  (case Process incoming client_socket w2 of
                     (result, w3) \<Rightarrow>
                       if result = ''DISCONNECT'' then Some (None, w3)
                       else ServeClient_loop user client_socket w3)))
      else Some (None, w))"

text \<open>
  \<^verbatim>\<open>ServeClient\<close>. An exception is not caught here either (nor in the thread entry): the
  statements after the throwing call, among them \<^verbatim>\<open>Close\<close>, are not executed.
\<close>

definition ServeClient :: "Socket \<Rightarrow> world \<Rightarrow> (error option \<times> world) option" where
  "ServeClient client_socket w =
     (case Authenticate client_socket w of
        (Inl e, w1) \<Rightarrow> Some (Some e, w1)
      | (Inr None, w1) \<Rightarrow> Some (None, Close client_socket w1)
      | (Inr (Some user), w1) \<Rightarrow>
          (case NowEpochMs w1 of
             (now, w2) \<Rightarrow>
               let joinMsg = \<lparr>type = USER_JOINED, timestamp = now,
                               sender_username = username user, target_username = [],
                               content = username user @ '' joined''\<rparr>;
                   w3 = LogFromMessage joinMsg (BroadcastPublic joinMsg w2)
               in (case ServeClient_loop user client_socket w3 of
                     None \<Rightarrow> None
                   | Some (Some e, w4) \<Rightarrow> Some (Some e, w4)
                   | Some (None, w4) \<Rightarrow>
                       (case NowEpochMs (RemoveUser (username user) w4) of
                          (now', w5) \<Rightarrow>
                            let leaveMsg = \<lparr>type = USER_LEFT, timestamp = now',
                                             sender_username = username user,
                                             target_username = [],
                                             content = username user @ '' left''\<rparr>;
                                w6 = LogFromMessage leaveMsg (BroadcastPublic leaveMsg w5)
                            in Some (None, Close client_socket w6)))))"

section \<open>Client input loop (ClientCLI::InputLoop)\<close>

definition ReadLine :: "world \<Rightarrow> string \<times> world" where
  "ReadLine w =
     (case console_in w of
        [] \<Rightarrow> ([], w)
      | line # rest \<Rightarrow> (line, w\<lparr>console_in := rest\<rparr>))"

text \<open>\<^verbatim>\<open>line.find(' ')\<close>: the first position of the character, \<open>None\<close> for \<^verbatim>\<open>npos\<close>.\<close>

fun string_find :: "string \<Rightarrow> char \<Rightarrow> nat option" where
  "string_find [] c = None"
| "string_find (x # xs) c = (if x = c then Some 0 else map_option Suc (string_find xs c))"

text \<open>
  One pass of the loop body for a non-empty line; the flag says whether the loop goes on.
  A default-constructed \<^verbatim>\<open>Message\<close> has empty strings; its \<open>type\<close> is assigned on every
  path that sends it. In the private-message branch the line starts with \<open>@\<close>, so the
  position of the first space is at least 1.
\<close>

definition InputLoop_body :: "Socket \<Rightarrow> string \<Rightarrow> world \<Rightarrow> bool \<times> world" where
  "InputLoop_body sock line w =
     (case NowEpochMs w of
        (now, w1) \<Rightarrow>
          if line = ''/bye'' then
            (False, Close sock (snd (SendMessage sock
               \<lparr>type = COMMAND_RESPONSE, timestamp = now, sender_username = [],
                target_username = [], content = ''BYE''\<rparr> w1)))
          else if line = ''/list'' then
            (True, snd (SendMessage sock
               \<lparr>type = USER_LIST_REQUEST, timestamp = now, sender_username = [],
                target_username = [], content = []\<rparr> w1))
          else if line \<noteq> [] \<and> hd line = CHR ''@'' then
            (case string_find line CHR '' '' of
               None \<Rightarrow> (True, w1)
             | Some spacePos \<Rightarrow>
                 (True, snd (SendMessage sock
                    \<lparr>type = PRIVATE_MESSAGE, timestamp = now, sender_username = [],
                     target_username = take (spacePos - 1) (drop 1 line),
                     content = drop (spacePos + 1) line\<rparr> w1)))
          else
            (True, snd (SendMessage sock
               \<lparr>type = PUBLIC_MESSAGE, timestamp = now, sender_username = [],
                target_username = [], content = line\<rparr> w1)))"

partial_function (option) InputLoop :: "Socket \<Rightarrow> world \<Rightarrow> world option" where
  "InputLoop sock w =
     (case ReadLine w of
        (line, w1) \<Rightarrow>
          if line = [] then InputLoop sock w1
          else
            (case InputLoop_body sock line w1 of
               (continue, w2) \<Rightarrow> if continue then InputLoop sock w2 else Some w2))"

section \<open>Concurrent authentications\<close>

text \<open>
  Sessions run \<^verbatim>\<open>Authenticate\<close> in threads of their own. The registry calls it makes
  for one candidate name are \<^verbatim>\<open>CheckUniqueness\<close> and then, when that returned true,
  \<^verbatim>\<open>AddUser\<close>; each holds the mutex only for itself. A session is therefore at one of
  these points: about to check a candidate, past a check that returned true and about
  to add, accepted (user added, \<^verbatim>\<open>USERNAME_ACCEPTED\<close> sent), or answered
  \<^verbatim>\<open>USERNAME_TAKEN\<close>.
\<close>

datatype auth_pc = Candidate string | Unique string | Accepted User | Taken

definition auth_step :: "Socket \<Rightarrow> auth_pc \<Rightarrow> world \<Rightarrow> auth_pc \<times> world" where
  "auth_step client_socket pc w =
     (case pc of
        Candidate name \<Rightarrow> (if CheckUniqueness name w then Unique name else Taken, w)
      | Unique name \<Rightarrow>
          (case NowEpochMs w of
             (now, w1) \<Rightarrow>
               let user = \<lparr>user_id = client_socket, username = name,
                             connected = True, joined_at = now\<rparr>
               in (Accepted user, AddUser user client_socket w1))
      | Accepted user \<Rightarrow> (pc, w)
      | Taken \<Rightarrow> (pc, w))"

text \<open>A schedule names, step by step, the session that makes its next registry call.\<close>

fun run_schedule ::
  "nat list \<Rightarrow> (Socket \<times> auth_pc) list \<times> world \<Rightarrow> (Socket \<times> auth_pc) list \<times> world" where
  "run_schedule [] st = st"
| "run_schedule (i # sched) (sessions, w) =
     (if i < length sessions then
        (case sessions ! i of
           (sock, pc) \<Rightarrow>
             (case auth_step sock pc w of
                (pc', w') \<Rightarrow> run_schedule sched (sessions[i := (sock, pc')], w')))
      else run_schedule sched (sessions, w))"

section \<open>Concrete inputs\<close>

definition idle_world :: world where
  "idle_world = \<lparr>g_users = [], clock = (\<lambda>n. 1000 + of_nat n), ticks = 0,
     inp = (\<lambda>s. []), out = (\<lambda>s. []), broken = (\<lambda>s. False), closed = {},
     heap_limit = 2 ^ 30, log_file = [], console_in = []\<rparr>"

definition hello_msg :: Message where
  "hello_msg = \<lparr>type = PUBLIC_MESSAGE, timestamp = 42, sender_username = ''alice'',
     target_username = [], content = ''hi''\<rparr>"

text \<open>A well-formed frame payload whose type field holds 99.\<close>

definition type99_msg :: Message where
  "type99_msg = \<lparr>type = 99, timestamp = 42, sender_username = ''a'',
     target_username = [], content = ''hi''\<rparr>"

definition type99_payload :: "byte list" where
  "type99_payload =
     [CHR 0x00, CHR 0x00, CHR 0x00, CHR 0x63,
      CHR 0x00, CHR 0x00, CHR 0x00, CHR 0x00, CHR 0x00, CHR 0x00, CHR 0x00, CHR 0x2A,
      CHR 0x00, CHR 0x00, CHR 0x00, CHR 0x01, CHR ''a'',
      CHR 0x00, CHR 0x00, CHR 0x00, CHR 0x00,
      CHR 0x00, CHR 0x00, CHR 0x00, CHR 0x02, CHR ''h'', CHR ''i'']"

section \<open>Reading the input of a socket as a byte stream\<close>

text \<open>
  The bytes a socket delivers before its first failing \<^verbatim>\<open>::recv\<close>: the chunks up to the
  first empty one (or the end of the list), joined.
\<close>

definition avail :: "byte list list \<Rightarrow> byte list" where
  "avail cs = concat (takeWhile (\<lambda>c. c \<noteq> []) cs)"

section \<open>Notions used to state the properties\<close>

text \<open>The message built by \<^verbatim>\<open>MakeServerCommand\<close> (and inline in other places) at time \<open>t\<close>.\<close>

definition server_command :: "64 word \<Rightarrow> string \<Rightarrow> Message" where
  "server_command t text =
     \<lparr>type = COMMAND_RESPONSE, timestamp = t, sender_username = ''Server'',
      target_username = [], content = text\<rparr>"

text \<open>
  The environment after one frame has been offered to a socket: the frame is appended to
  the output of the socket, unless the socket is broken, in which case nothing changes.
\<close>

definition written :: "Socket \<Rightarrow> Message \<Rightarrow> world \<Rightarrow> world" where
  "written sock msg w =
     (if broken w sock then w else w\<lparr>out := (out w)(sock := out w sock @ frame msg)\<rparr>)"

text \<open>A message whose encoding is short enough for the 32-bit frame length.\<close>

definition sendable :: "Message \<Rightarrow> bool" where
  "sendable m \<longleftrightarrow> length (Serialize m) < 2 ^ 31"

definition truncated_world :: world where
  "truncated_world =
     idle_world\<lparr>inp := (\<lambda>s. if s = 4
        then [[CHR 0x00, CHR 0x00, CHR 0x00, CHR 0x1B], take 10 type99_payload] else [])\<rparr>"

text \<open>
  A peer that declares a payload of \<open>2^31 - 1\<close> bytes, sends two bytes and closes, while
  the allocator can provide at most \<open>2^30\<close> bytes.
\<close>

definition huge_length_world :: world where
  "huge_length_world =
     idle_world\<lparr>inp := (\<lambda>s. if s = 4
        then [[CHR 0x7F, CHR 0xFF, CHR 0xFF, CHR 0xFF], [CHR 0x01, CHR 0x02]] else [])\<rparr>"

definition one_frame_world :: world where
  "one_frame_world =
     idle_world\<lparr>inp := (\<lambda>s. if s = 4
        then [[CHR 0x00, CHR 0x00], [CHR 0x00, CHR 0x1B] @ take 10 type99_payload,
              drop 10 type99_payload] else [])\<rparr>"

definition alice :: User where
  "alice = \<lparr>user_id = 4, username = ''alice'', connected = True, joined_at = 1\<rparr>"

definition bob :: User where
  "bob = \<lparr>user_id = 5, username = ''bob'', connected = True, joined_at = 2\<rparr>"

definition two_user_world :: world where
  "two_user_world = idle_world\<lparr>g_users := [(''alice'', alice, 4), (''bob'', bob, 5)]\<rparr>"


definition pm_to_carol :: Message where
  "pm_to_carol = \<lparr>type = PRIVATE_MESSAGE, timestamp = 7, sender_username = ''alice'',
     target_username = ''carol'', content = ''hello''\<rparr>"

text \<open>
  The environment after a session on socket \<open>sock\<close> has read the clock \<open>n\<close> times, has
  consumed the input of the socket down to \<open>s'\<close>, and has offered the messages \<open>msgs\<close> to
  the socket, in this order. Nothing else differs from \<open>w\<close>.
\<close>

definition after_dialogue ::
  "world \<Rightarrow> Socket \<Rightarrow> nat \<Rightarrow> byte list list \<Rightarrow> Message list \<Rightarrow> world" where
  "after_dialogue w sock n s' msgs =
     w\<lparr>ticks := ticks w + n,
       inp := (inp w)(sock := s'),
       out := (out w)(sock := out w sock @
                (if broken w sock then [] else concat (map frame msgs)))\<rparr>"

text \<open>The number of username prompts among the messages offered to a client.\<close>

definition prompts :: "Message list \<Rightarrow> nat" where
  "prompts msgs = length (filter (\<lambda>m. content m = ''ENTER_USERNAME'') msgs)"

text \<open>A client on socket 6 that answers every prompt with the name \<open>alice\<close>, already taken.\<close>

definition alice_reply :: Message where
  "alice_reply = \<lparr>type = COMMAND_RESPONSE, timestamp = 5, sender_username = [],
     target_username = [], content = ''alice''\<rparr>"

definition stubborn_world :: world where
  "stubborn_world =
     two_user_world\<lparr>inp := (\<lambda>s. if s = 6
        then [frame alice_reply @ frame alice_reply, frame alice_reply, frame alice_reply]
        else [])\<rparr>"

text \<open>A message as a client sends it: no sender, timestamp not set.\<close>

definition unstamped_msg :: Message where
  "unstamped_msg = \<lparr>type = PUBLIC_MESSAGE, timestamp = 0, sender_username = ''mallory'',
     target_username = ''x'', content = ''hi''\<rparr>"

section \<open>Properties of the wire codec\<close>

lemma rev8: "rev [0..<8] = [7,6,5,4,3,2,1,0::nat]"
  by (simp add: upt_rec)

lemma mask8: "(w::'a::len word) AND 0xFF = take_bit 8 w"
  by (simp add: take_bit_eq_mask mask_eq_exp_minus_1)

lemma of_char_byte_of:
  "(of_char (byte_of (v::'a::len word)) :: 'b::len word) = ucast (take_bit 8 v)"
  by (metis (mono_tags, lifting) byte_of_def char_of_eq_iff of_nat_of_char
    of_nat_unat unsigned_take_bit_eq)

lemma glue8:
  "push_bit 8 (drop_bit (k + 8) w) OR take_bit 8 (drop_bit k w) = drop_bit k (w::'a::len word)"
proof -
  have "push_bit 8 (drop_bit 8 x) OR take_bit 8 x = x" for x :: "'a word"
    by (rule bit_word_eqI) (auto simp add: bit_simps)
  from this [of "drop_bit k w"] show ?thesis
    by (simp add: add.commute)
qed

lemma be_word_write_int32: "be_word (write_int32 v) = v"
  unfolding be_word_def write_int32_def shl8_or_def
  using glue8 [of 24 v] glue8 [of 16 v] glue8 [of 8 v] glue8 [of 0 v]
  by (simp add: of_char_byte_of mask8)

lemma be_word_write_int64: "be_word (write_int64 v) = v"
  unfolding be_word_def write_int64_def rev8 shl8_or_def
  using glue8 [of 56 v] glue8 [of 48 v] glue8 [of 40 v] glue8 [of 32 v]
    glue8 [of 24 v] glue8 [of 16 v] glue8 [of 8 v] glue8 [of 0 v]
  by (simp add: of_char_byte_of mask8)

lemma of_char_word_small: "take_bit 8 (of_char c :: 'a::len word) = of_char c"
proof -
  have "(of_char c :: 'a word) = of_nat (of_char c)" by (simp add: of_nat_of_char)
  also have "\<dots> = of_nat (take_bit 8 (of_char c :: nat))" by (simp add: take_bit_eq_mod)
  also have "\<dots> = take_bit 8 (of_nat (of_char c) :: 'a word)" by (simp add: of_nat_take_bit)
  finally show ?thesis by (simp add: of_nat_of_char)
qed

lemma bit_of_char_word: "bit (of_char c :: 'a::len word) n \<Longrightarrow> n < 8"
  using of_char_word_small [of c, where 'a='a] by (metis bit_take_bit_iff)

lemma byte_of_of_char: "8 \<le> LENGTH('a) \<Longrightarrow> byte_of (of_char c :: 'a::len word) = c"
  by (metis byte_of_def char_of_char char_of_nat char_of_take_bit_eq
    of_int_of_char of_nat_unat uint_word_of_int_eq)

lemma low8: "8 \<le> LENGTH('a) \<Longrightarrow> take_bit 8 (shl8_or x c :: 'a::len word) = of_char c"
  unfolding shl8_or_def
  by (rule bit_word_eqI) (auto simp add: bit_simps dest: bit_of_char_word)

lemma high8:
  "k + 16 \<le> LENGTH('a) \<Longrightarrow>
   take_bit 8 (drop_bit (k + 8) (shl8_or x c :: 'a::len word)) = take_bit 8 (drop_bit k x)"
  unfolding shl8_or_def
  by (rule bit_word_eqI) (auto simp add: bit_simps dest: bit_of_char_word)

lemmas high8_32 =
  high8 [of 0, where 'a=32, simplified] high8 [of 8, where 'a=32, simplified]
  high8 [of 16, where 'a=32, simplified]

lemmas high8_64 =
  high8 [of 0, where 'a=64, simplified] high8 [of 8, where 'a=64, simplified]
  high8 [of 16, where 'a=64, simplified] high8 [of 24, where 'a=64, simplified]
  high8 [of 32, where 'a=64, simplified] high8 [of 40, where 'a=64, simplified]
  high8 [of 48, where 'a=64, simplified]

lemma write_int32_be_word4: "write_int32 (be_word [a, b, c, d]) = [a, b, c, d]"
  unfolding write_int32_def be_word_def
  by (simp add: mask8 low8 high8_32 byte_of_of_char)

lemma write_int64_be_word8:
  "write_int64 (be_word [a, b, c, d, e, f, g, h]) = [a, b, c, d, e, f, g, h]"
  unfolding write_int64_def be_word_def rev8
  by (simp add: mask8 low8 high8_64 byte_of_of_char)

lemma length_write_int32: "length (write_int32 v) = 4"
  by (simp add: write_int32_def)

lemma length_write_int64: "length (write_int64 v) = 8"
  by (simp add: write_int64_def)

lemma list4: "length bs = 4 \<Longrightarrow> \<exists>a b c d. bs = [a, b, c, d]"
  by (cases bs; simp; cases "tl bs"; simp; cases "tl (tl bs)"; simp; cases "tl (tl (tl bs))"; simp)

lemma list8: "length bs = 8 \<Longrightarrow> \<exists>a b c d e f g h. bs = [a, b, c, d, e, f, g, h]"
proof -
  assume l: "length bs = 8"
  then have "length (take 4 bs) = 4" "length (drop 4 bs) = 4" by simp_all
  then obtain a b c d e f g h where "take 4 bs = [a, b, c, d]" "drop 4 bs = [e, f, g, h]"
    using list4 by metis
  then have "bs = [a, b, c, d, e, f, g, h]"
    by (metis append_take_drop_id append_Cons append_Nil)
  then show ?thesis by blast
qed

lemma write_int32_be_word: "length bs = 4 \<Longrightarrow> write_int32 (be_word bs) = bs"
  using list4 [of bs] write_int32_be_word4 by auto

lemma write_int64_be_word: "length bs = 8 \<Longrightarrow> write_int64 (be_word bs) = bs"
  using list8 [of bs] write_int64_be_word8 by auto

lemma read_int32_at:
  "length pre = pos \<Longrightarrow> read_int32 (pre @ write_int32 v @ rest) pos = Inr (v, pos + 4)"
  by (simp add: read_int32_def length_write_int32 be_word_write_int32)

lemma read_int64_at:
  "length pre = pos \<Longrightarrow> read_int64 (pre @ write_int64 v @ rest) pos = Inr (v, pos + 8)"
  by (simp add: read_int64_def length_write_int64 be_word_write_int64)

lemma sint_of_nat_small: "n < 2 ^ 31 \<Longrightarrow> sint (of_nat n :: 32 word) = int n"
  by (simp add: signed_of_nat signed_take_bit_int_eq_self)

lemma of_nat_nat_sint: "0 \<le> sint (len :: 32 word) \<Longrightarrow> of_nat (nat (sint len)) = len"
  by simp

lemma nat_sint_small: "nat (sint (len :: 32 word)) < 2 ^ 31"
  using sint_lt [of len] by simp

lemma read_string_at:
  assumes "length pre = pos" and "length s < 2 ^ 31"
  shows "read_string (pre @ write_string s @ rest) pos = Inr (s, pos + 4 + length s)"
proof -
  have "read_int32 (pre @ write_int32 (of_nat (length s)) @ (s @ rest)) pos
          = Inr (of_nat (length s), pos + 4)"
    using assms(1) by (rule read_int32_at)
  then show ?thesis
    using assms by (simp add: read_string_def write_string_def sint_of_nat_small length_write_int32)
qed


lemma Deserialize_Serialize_append:
  assumes "length (sender_username m) < 2 ^ 31"
    and "length (target_username m) < 2 ^ 31"
    and "length (content m) < 2 ^ 31"
  shows "Deserialize (Serialize m @ rest) = Inr m"
proof -
  let ?t = "write_int32 (type m)" and ?ts = "write_int64 (timestamp m)"
  let ?s = "write_string (sender_username m)" and ?g = "write_string (target_username m)"
  let ?c = "write_string (content m)"
  let ?data = "Serialize m @ rest"
  have len_s: "length ?s = 4 + length (sender_username m)"
    and len_g: "length ?g = 4 + length (target_username m)"
    by (simp_all add: write_string_def length_write_int32)
  have r1: "read_int32 ?data 0 = Inr (type m, 4)"
    using read_int32_at [of "[]" 0 "type m" "?ts @ ?s @ ?g @ ?c @ rest"]
    by (simp add: Serialize_def)
  have r2: "read_int64 ?data 4 = Inr (timestamp m, 12)"
    using read_int64_at [of ?t 4 "timestamp m" "?s @ ?g @ ?c @ rest"]
    by (simp add: Serialize_def length_write_int32)
  have r3: "read_string ?data 12 = Inr (sender_username m, 16 + length (sender_username m))"
    using read_string_at [of "?t @ ?ts" 12 "sender_username m" "?g @ ?c @ rest"] assms(1)
    by (simp add: Serialize_def length_write_int32 length_write_int64)
  have r4: "read_string ?data (16 + length (sender_username m))
              = Inr (target_username m, 20 + length (sender_username m) + length (target_username m))"
    using read_string_at [of "?t @ ?ts @ ?s" "16 + length (sender_username m)"
        "target_username m" "?c @ rest"] assms(2)
    by (simp add: Serialize_def length_write_int32 length_write_int64 len_s)
  have r5: "read_string ?data (20 + length (sender_username m) + length (target_username m))
              = Inr (content m, 24 + length (sender_username m) + length (target_username m)
                       + length (content m))"
    using read_string_at [of "?t @ ?ts @ ?s @ ?g"
        "20 + length (sender_username m) + length (target_username m)" "content m" rest] assms(3)
    by (simp add: Serialize_def length_write_int32 length_write_int64 len_s len_g)
  show ?thesis
    unfolding Deserialize_def by (simp add: r1 r2 r3 r4 r5)
qed

lemma read_int32_Inr:
  assumes "read_int32 data pos = Inr (v, p)"
  shows "p = pos + 4 \<and> pos + 4 \<le> length data \<and> take 4 (drop pos data) = write_int32 v"
  using assms by (auto simp: read_int32_def write_int32_be_word split: if_splits)

lemma read_int64_Inr:
  assumes "read_int64 data pos = Inr (v, p)"
  shows "p = pos + 8 \<and> pos + 8 \<le> length data \<and> take 8 (drop pos data) = write_int64 v"
  using assms by (auto simp: read_int64_def write_int64_be_word split: if_splits)

lemma read_string_Inr:
  assumes "read_string data pos = Inr (s, p)"
  shows "p = pos + 4 + length s \<and> p \<le> length data \<and> length s < 2 ^ 31 \<and>
         take (4 + length s) (drop pos data) = write_string s"
proof -
  from assms obtain len p1 where r: "read_int32 data pos = Inr (len, p1)"
    by (cases "read_int32 data pos") (auto simp: read_string_def)
  from read_int32_Inr [OF r] have p1: "p1 = pos + 4"
    and t4: "take 4 (drop pos data) = write_int32 len" by simp_all
  from assms have nn: "0 \<le> sint len" and fit: "p1 + nat (sint len) \<le> length data"
    and s: "s = take (nat (sint len)) (drop p1 data)" and p: "p = p1 + nat (sint len)"
    unfolding read_string_def r by (simp_all split: if_splits)
  from s fit have ls: "length s = nat (sint len)" by simp
  have "take (4 + length s) (drop pos data)
          = take 4 (drop pos data) @ take (length s) (drop 4 (drop pos data))"
    by (rule take_add)
  also have "\<dots> = write_int32 len @ s"
  proof -
    have "take (length s) (drop 4 (drop pos data)) = take (nat (sint len)) (drop p1 data)"
      unfolding ls p1 by (simp add: add.commute)
    with s t4 show ?thesis by simp
  qed
  also have "\<dots> = write_string s"
    unfolding write_string_def ls using of_nat_nat_sint [OF nn] by simp
  finally have w: "take (4 + length s) (drop pos data) = write_string s" .
  have small: "length s < 2 ^ 31"
    unfolding ls by (rule nat_sint_small)
  have "p = pos + 4 + length s" "p \<le> length data"
    using p p1 ls fit by simp_all
  with w small show ?thesis by blast
qed

lemma take_step: "take (p + k) data = take p data @ take k (drop p data)"
  by (simp add: take_add)

lemma Deserialize_Inr:
  assumes "Deserialize data = Inr m"
  shows "\<exists>rest. data = Serialize m @ rest"
    and "length (sender_username m) < 2 ^ 31"
    and "length (target_username m) < 2 ^ 31"
    and "length (content m) < 2 ^ 31"
proof -
  from assms obtain t p1 ts p2 s p3 g p4 c p5 where
    r1: "read_int32 data 0 = Inr (t, p1)" and r2: "read_int64 data p1 = Inr (ts, p2)" and
    r3: "read_string data p2 = Inr (s, p3)" and r4: "read_string data p3 = Inr (g, p4)" and
    r5: "read_string data p4 = Inr (c, p5)" and
    m: "m = \<lparr>type = t, timestamp = ts, sender_username = s, target_username = g, content = c\<rparr>"
    by (auto simp: Deserialize_def split: sum.splits)
  note a1 = read_int32_Inr [OF r1] and a2 = read_int64_Inr [OF r2]
    and a3 = read_string_Inr [OF r3] and a4 = read_string_Inr [OF r4]
    and a5 = read_string_Inr [OF r5]
  have "take p5 data = take p4 data @ write_string c"
    using a5 take_step [of p4 "4 + length c" data] by (simp add: add.assoc)
  moreover have "take p4 data = take p3 data @ write_string g"
    using a4 take_step [of p3 "4 + length g" data] by (simp add: add.assoc)
  moreover have "take p3 data = take p2 data @ write_string s"
    using a3 take_step [of p2 "4 + length s" data] by (simp add: add.assoc)
  moreover have "take p2 data = take p1 data @ write_int64 ts"
    using a2 take_step [of p1 8 data] by simp
  moreover have "take p1 data = write_int32 t"
    using a1 by simp
  ultimately have "take p5 data = Serialize m"
    by (simp add: Serialize_def m)
  then have "data = Serialize m @ drop p5 data"
    by (metis append_take_drop_id)
  then show "\<exists>rest. data = Serialize m @ rest" ..
  show "length (sender_username m) < 2 ^ 31" "length (target_username m) < 2 ^ 31"
    "length (content m) < 2 ^ 31"
    using a3 a4 a5 by (simp_all add: m)
qed

lemma Serialize_type99_msg: "Serialize type99_msg = type99_payload"
  by (simp add: type99_msg_def type99_payload_def Serialize_def write_int32_def
      write_int64_def write_string_def byte_of_def rev8 mask8 char_of_def bit_Suc_0_iff)

lemma length_Serialize:
  "length (Serialize m) =
     24 + length (sender_username m) + length (target_username m) + length (content m)"
  by (simp add: Serialize_def write_string_def length_write_int32 length_write_int64)

text \<open>
  \<^bold>\<open>C2\<close> (round-trip codec). For every valid message (type one of the eight enumerators,
  the three strings shorter than \<open>2^31\<close> bytes so that their lengths fit in a non-negative
  \<^verbatim>\<open>int32\<close>), decoding the encoded message succeeds and gives back the message: type,
  timestamp, sender, target and content.
\<close>

theorem Deserialize_Serialize_roundtrip:
  "valid_Message m \<Longrightarrow> Deserialize (Serialize m) = Inr m"
  using Deserialize_Serialize_append [of m "[]"] by (simp add: valid_Message_def)

theorem Deserialize_Serialize_roundtrip_witness:
  "valid_Message hello_msg \<and> Deserialize (Serialize hello_msg) = Inr hello_msg"
proof -
  have v: "valid_Message hello_msg"
    by (simp add: valid_Message_def hello_msg_def enumerators_def)
  from v Deserialize_Serialize_roundtrip [OF v] show ?thesis by simp
qed

text \<open>
  \<^bold>\<open>C3\<close> as stated fails: the decoder has no check of the type value. The payload
  \<open>type99_payload\<close> is complete and well-formed, its type field is 99, and decoding it
  succeeds with a message whose type is 99, which is none of the enumerators.
\<close>

theorem Deserialize_type_unchecked_counterexample:
  "Deserialize type99_payload = Inr type99_msg \<and> type type99_msg \<notin> set enumerators"
  by (simp add: type99_payload_def type99_msg_def Deserialize_def read_int32_def
      read_int64_def read_string_def be_word_def shl8_or_def enumerators_def MessageType_defs)

text \<open>
  \<^bold>\<open>C3\<close> (amended). Decoding succeeds exactly on the inputs that start with the complete
  encoding of a message whose three strings are shorter than \<open>2^31\<close> bytes, and returns
  that message; bytes after the encoding are ignored. On every other input it fails: in
  particular when fewer bytes remain than a declared string length (or a fixed-width
  field) needs, or when a declared length is negative. So every proper prefix of an
  encoding is rejected. The type value is not constrained: whatever \<^verbatim>\<open>int32\<close> the first
  four bytes hold is the type of the decoded message.
\<close>

theorem Deserialize_accepts_iff:
  "(Deserialize data = Inr m \<longleftrightarrow>
      (\<exists>rest. data = Serialize m @ rest) \<and>
      length (sender_username m) < 2 ^ 31 \<and> length (target_username m) < 2 ^ 31 \<and>
      length (content m) < 2 ^ 31) \<and>
   (length (sender_username m0) < 2 ^ 31 \<and> length (target_username m0) < 2 ^ 31 \<and>
    length (content m0) < 2 ^ 31 \<and> n < length (Serialize m0)
      \<longrightarrow> (\<exists>e. Deserialize (take n (Serialize m0)) = Inl e))"
proof (intro conjI impI)
  show "Deserialize data = Inr m \<longleftrightarrow>
      (\<exists>rest. data = Serialize m @ rest) \<and>
      length (sender_username m) < 2 ^ 31 \<and> length (target_username m) < 2 ^ 31 \<and>
      length (content m) < 2 ^ 31"
    using Deserialize_Inr [of data m] Deserialize_Serialize_append [of m] by auto
next
  assume a: "length (sender_username m0) < 2 ^ 31 \<and> length (target_username m0) < 2 ^ 31 \<and>
    length (content m0) < 2 ^ 31 \<and> n < length (Serialize m0)"
  let ?S = "Serialize m0"
  show "\<exists>e. Deserialize (take n ?S) = Inl e"
  proof (cases "Deserialize (take n ?S)")
    case (Inl e)
    then show ?thesis by blast
  next
    case (Inr m')
    from Deserialize_Inr [OF Inr] obtain rest where
      pre: "take n ?S = Serialize m' @ rest" and
      l': "length (sender_username m') < 2 ^ 31" "length (target_username m') < 2 ^ 31"
        "length (content m') < 2 ^ 31"
      by blast
    have "?S = Serialize m' @ (rest @ drop n ?S)"
      using pre by (metis append.assoc append_take_drop_id)
    then have "Deserialize ?S = Inr m'"
      using Deserialize_Serialize_append [OF l', of "rest @ drop n ?S"] by simp
    moreover have "Deserialize ?S = Inr m0"
      using a Deserialize_Serialize_append [of m0 "[]"] by simp
    ultimately have "m' = m0" by simp
    with pre have "length (take n ?S) \<ge> length ?S" by simp
    with a show ?thesis by simp
  qed
qed

theorem Deserialize_accepts_iff_witness:
  "Deserialize (type99_payload @ ''xyz'') = Inr type99_msg \<and>
   (\<exists>e. Deserialize (take 26 type99_payload) = Inl e)"
proof -
  have l: "length (sender_username type99_msg) < 2 ^ 31 \<and>
      length (target_username type99_msg) < 2 ^ 31 \<and>
      length (content type99_msg) < 2 ^ 31 \<and> 26 < length (Serialize type99_msg)"
    by (simp add: length_Serialize) (simp add: type99_msg_def)
  have e: "\<exists>rest. type99_payload @ ''xyz'' = Serialize type99_msg @ rest"
    by (simp add: Serialize_type99_msg)
  from Deserialize_accepts_iff [of "type99_payload @ ''xyz''" type99_msg type99_msg 26] l e
  show ?thesis by (simp add: Serialize_type99_msg)
qed

section \<open>Properties of the transport\<close>

declare recv_all.simps [simp del]
declare Authenticate_loop.simps [simp del]

lemma inp_upd_same: "w\<lparr>inp := (inp w)(sock := inp w sock)\<rparr> = w"
  by simp

lemma recv_cases:
  assumes "recv sock want w = (d, w1)" and "0 < want"
  shows "w1 = w\<lparr>inp := (inp w)(sock := inp w1 sock)\<rparr> \<and>
           (if avail (inp w sock) = [] then d = []
            else d \<noteq> [] \<and> length d \<le> want \<and> d = take (length d) (avail (inp w sock)) \<and>
                 avail (inp w1 sock) = drop (length d) (avail (inp w sock)))"
proof (cases "inp w sock")
  case Nil
  with assms have "d = []" "w1 = w" "avail (inp w sock) = []"
    by (simp_all add: recv_def avail_def)
  then show ?thesis by simp
next
  case (Cons c cs)
  show ?thesis
  proof (cases "c = []")
    case True
    with Cons assms have "d = []" "w1 = w\<lparr>inp := (inp w)(sock := cs)\<rparr>"
      "avail (inp w sock) = []"
      by (simp_all add: recv_def avail_def)
    then show ?thesis by simp
  next
    case False
    show ?thesis
    proof (cases "length c \<le> want")
      case True
      with Cons assms have "d = c" "w1 = w\<lparr>inp := (inp w)(sock := cs)\<rparr>"
        by (simp_all add: recv_def)
      moreover have "avail (inp w sock) = c @ avail cs"
        using Cons False by (simp add: avail_def)
      ultimately show ?thesis using False True by simp
    next
      case long: False
      with Cons assms have "d = take want c"
        "w1 = w\<lparr>inp := (inp w)(sock := drop want c # cs)\<rparr>"
        by (simp_all add: recv_def)
      moreover have "avail (inp w sock) = c @ avail cs"
        using Cons False by (simp add: avail_def)
      moreover have "avail (drop want c # cs) = drop want c @ avail cs"
        using long by (simp add: avail_def)
      ultimately show ?thesis using False long assms(2) by (simp add: min_def)
    qed
  qed
qed

lemma recv_all_avail:
  assumes "recv_all sock len buf w = (r, w')" and "length buf \<le> len"
  shows "w' = w\<lparr>inp := (inp w)(sock := inp w' sock)\<rparr> \<and>
         (if len - length buf \<le> length (avail (inp w sock))
          then r = Some (buf @ take (len - length buf) (avail (inp w sock))) \<and>
               avail (inp w' sock) = drop (len - length buf) (avail (inp w sock))
          else r = None)"
  using assms
proof (induction sock len buf w arbitrary: r w' rule: recv_all.induct)
  case (1 sock len buf w)
  show ?case
  proof (cases "length buf < len")
    case False
    with "1.prems" have r: "r = Some buf" and w: "w' = w" and z: "len - length buf = 0"
      by (simp_all add: recv_all.simps)
    show ?thesis unfolding z r w by simp
  next
    case True
    obtain d w1 where rc: "recv sock (len - length buf) w = (d, w1)"
      by (cases "recv sock (len - length buf) w")
    from recv_cases [OF rc] True have
      w1: "w1 = w\<lparr>inp := (inp w)(sock := inp w1 sock)\<rparr>" and
      c: "if avail (inp w sock) = [] then d = []
            else d \<noteq> [] \<and> length d \<le> len - length buf \<and> d = take (length d) (avail (inp w sock)) \<and>
                 avail (inp w1 sock) = drop (length d) (avail (inp w sock))"
      by simp_all
    show ?thesis
    proof (cases "d = []")
      case dn: True
      with c have av: "avail (inp w sock) = []" by (simp split: if_splits)
      from "1.prems" True rc dn have r: "r = None" and w: "w' = w1"
        by (simp_all add: recv_all.simps)
      have "if len - length buf \<le> length (avail (inp w sock))
          then r = Some (buf @ take (len - length buf) (avail (inp w sock))) \<and>
               avail (inp w' sock) = drop (len - length buf) (avail (inp w sock))
          else r = None"
        using av True r by simp
      with w1 show ?thesis unfolding w by blast
    next
      case dn: False
      with c have d: "length d \<le> len - length buf" "d = take (length d) (avail (inp w sock))"
        "avail (inp w1 sock) = drop (length d) (avail (inp w sock))"
        by (simp_all split: if_splits)
      from "1.prems" True rc dn have rec: "recv_all sock len (buf @ d) w1 = (r, w')"
        by (simp add: recv_all.simps)
      have le: "length (buf @ d) \<le> len" using d(1) True by simp
      note IH = "1.IH" [OF True rc [symmetric] dn rec le]
      from IH have w': "w' = w1\<lparr>inp := (inp w1)(sock := inp w' sock)\<rparr>"
        by (rule conjunct1)
      from IH have ih: "if len - length (buf @ d) \<le> length (avail (inp w1 sock))
          then r = Some ((buf @ d) @ take (len - length (buf @ d)) (avail (inp w1 sock))) \<and>
               avail (inp w' sock) = drop (len - length (buf @ d)) (avail (inp w1 sock))
          else r = None"
        by (rule conjunct2)
      let ?a = "avail (inp w sock)"
      have ld: "length d \<le> length ?a" using d(2) by (metis length_take min.cobounded1 min.commute)
      define s1 where "s1 = inp w1 sock"
      define s2 where "s2 = inp w' sock"
      have w1s: "w1 = w\<lparr>inp := (inp w)(sock := s1)\<rparr>"
        unfolding s1_def by (rule w1)
      have w2s: "w' = w1\<lparr>inp := (inp w1)(sock := s2)\<rparr>"
        unfolding s2_def by (rule w')
      have "w' = w\<lparr>inp := (inp w)(sock := s2)\<rparr>"
        unfolding w2s w1s by simp
      then have e1: "w' = w\<lparr>inp := (inp w)(sock := inp w' sock)\<rparr>"
        unfolding s2_def .
      show ?thesis
      proof (cases "len - length buf \<le> length ?a")
        case fits: True
        then have "len - length (buf @ d) \<le> length (avail (inp w1 sock))"
          using d(3) ld by simp
        with ih have r: "r = Some ((buf @ d) @ take (len - length (buf @ d)) (avail (inp w1 sock)))"
          and a: "avail (inp w' sock) = drop (len - length (buf @ d)) (avail (inp w1 sock))"
          by simp_all
        have "d @ take (len - length buf - length d) (drop (length d) ?a)
                = take (len - length buf) ?a"
          using d(1,2) by (metis le_add_diff_inverse take_add)
        then have "r = Some (buf @ take (len - length buf) ?a)"
          using r d(3) by (simp add: diff_diff_eq)
        moreover have ar: "len - length (buf @ d) + length d = len - length buf"
          using d(1) by simp
        have "avail (inp w' sock) = drop (len - length buf) ?a"
          by (simp only: a d(3) drop_drop ar)
        ultimately have "if len - length buf \<le> length (avail (inp w sock))
          then r = Some (buf @ take (len - length buf) (avail (inp w sock))) \<and>
               avail (inp w' sock) = drop (len - length buf) (avail (inp w sock))
          else r = None"
          using fits by simp
        with e1 show ?thesis by blast
      next
        case nofit: False
        then have "\<not> len - length (buf @ d) \<le> length (avail (inp w1 sock))"
          using d(3) ld by simp
        with ih have "r = None" by simp
        with nofit have "if len - length buf \<le> length (avail (inp w sock))
          then r = Some (buf @ take (len - length buf) (avail (inp w sock))) \<and>
               avail (inp w' sock) = drop (len - length buf) (avail (inp w sock))
          else r = None"
          by simp
        with e1 show ?thesis by blast
      qed
    qed
  qed
qed

lemma ReceiveMessage_avail:
  assumes "ReceiveMessage sock w = (r, w')"
  shows "w' = w\<lparr>inp := (inp w)(sock := inp w' sock)\<rparr>"
    and "r = (let a = avail (inp w sock) in
          if length a < 4 then Inr None
          else let total_len = sint (be_word (take 4 a) :: 32 word) in
            if total_len \<le> 0 then Inr None
            else if heap_limit w < nat total_len then Inl bad_alloc
            else if length a < 4 + nat total_len then Inr None
            else (case Deserialize (take (nat total_len) (drop 4 a)) of
                    Inl e \<Rightarrow> Inr None | Inr msg \<Rightarrow> Inr (Some msg)))"
    and "r = Inr (Some m) \<Longrightarrow>
          avail (inp w' sock) =
            drop (4 + nat (sint (be_word (take 4 (avail (inp w sock))) :: 32 word)))
              (avail (inp w sock))"
proof -
  let ?a = "avail (inp w sock)"
  obtain r1 w1 where h: "recv_all sock 4 [] w = (r1, w1)"
    by (cases "recv_all sock 4 [] w")
  from recv_all_avail [OF h] have
    w1: "w1 = w\<lparr>inp := (inp w)(sock := inp w1 sock)\<rparr>" and
    c1: "if 4 \<le> length ?a then r1 = Some (take 4 ?a) \<and> avail (inp w1 sock) = drop 4 ?a
         else r1 = None"
    by simp_all
  define s1 where "s1 = inp w1 sock"
  have w1s: "w1 = w\<lparr>inp := (inp w)(sock := s1)\<rparr>" unfolding s1_def by (rule w1)
  have hl: "heap_limit w1 = heap_limit w" unfolding w1s by simp
  have goal: "w' = w\<lparr>inp := (inp w)(sock := inp w' sock)\<rparr> \<and>
    r = (let a = avail (inp w sock) in
          if length a < 4 then Inr None
          else let total_len = sint (be_word (take 4 a) :: 32 word) in
            if total_len \<le> 0 then Inr None
            else if heap_limit w < nat total_len then Inl bad_alloc
            else if length a < 4 + nat total_len then Inr None
            else (case Deserialize (take (nat total_len) (drop 4 a)) of
                    Inl e \<Rightarrow> Inr None | Inr msg \<Rightarrow> Inr (Some msg))) \<and>
    (r = Inr (Some m) \<longrightarrow>
          avail (inp w' sock) =
            drop (4 + nat (sint (be_word (take 4 (avail (inp w sock))) :: 32 word)))
              (avail (inp w sock)))"
  proof (cases "4 \<le> length ?a")
    case False
    with c1 have "r1 = None" by simp
    with assms h have r: "r = Inr None" and ww: "w' = w1"
      by (simp_all add: ReceiveMessage_def)
    have "r = (let a = avail (inp w sock) in
          if length a < 4 then Inr None
          else let total_len = sint (be_word (take 4 a) :: 32 word) in
            if total_len \<le> 0 then Inr None
            else if heap_limit w < nat total_len then Inl bad_alloc
            else if length a < 4 + nat total_len then Inr None
            else (case Deserialize (take (nat total_len) (drop 4 a)) of
                    Inl e \<Rightarrow> Inr None | Inr msg \<Rightarrow> Inr (Some msg)))"
      using False r by (simp add: Let_def)
    with w1 r show ?thesis unfolding ww by blast
  next
    case True
    with c1 have r1: "r1 = Some (take 4 ?a)" and a1: "avail (inp w1 sock) = drop 4 ?a"
      by simp_all
    let ?L = "sint (be_word (take 4 ?a) :: 32 word)"
    show ?thesis
    proof (cases "?L \<le> 0")
      case neg: True
      with assms h r1 have r: "r = Inr None" and ww: "w' = w1"
        by (simp_all add: ReceiveMessage_def Let_def)
      have "r = (let a = avail (inp w sock) in
          if length a < 4 then Inr None
          else let total_len = sint (be_word (take 4 a) :: 32 word) in
            if total_len \<le> 0 then Inr None
            else if heap_limit w < nat total_len then Inl bad_alloc
            else if length a < 4 + nat total_len then Inr None
            else (case Deserialize (take (nat total_len) (drop 4 a)) of
                    Inl e \<Rightarrow> Inr None | Inr msg \<Rightarrow> Inr (Some msg)))"
        using True neg r by (simp add: Let_def)
      with w1 r show ?thesis unfolding ww by blast
    next
      case pos: False
      show ?thesis
      proof (cases "heap_limit w < nat ?L")
        case big: True
        with assms h r1 pos hl have r: "r = Inl bad_alloc" and ww: "w' = w1"
          by (simp_all add: ReceiveMessage_def Let_def)
        have "r = (let a = avail (inp w sock) in
          if length a < 4 then Inr None
          else let total_len = sint (be_word (take 4 a) :: 32 word) in
            if total_len \<le> 0 then Inr None
            else if heap_limit w < nat total_len then Inl bad_alloc
            else if length a < 4 + nat total_len then Inr None
            else (case Deserialize (take (nat total_len) (drop 4 a)) of
                    Inl e \<Rightarrow> Inr None | Inr msg \<Rightarrow> Inr (Some msg)))"
          using True pos big r by (simp add: Let_def)
        with w1 r show ?thesis unfolding ww by blast
      next
        case fitsmem: False
        obtain r2 w2 where h2: "recv_all sock (nat ?L) [] w1 = (r2, w2)"
          by (cases "recv_all sock (nat ?L) [] w1")
        from recv_all_avail [OF h2] have
          w2: "w2 = w1\<lparr>inp := (inp w1)(sock := inp w2 sock)\<rparr>" and
          c2: "if nat ?L \<le> length (avail (inp w1 sock))
               then r2 = Some (take (nat ?L) (avail (inp w1 sock))) \<and>
                    avail (inp w2 sock) = drop (nat ?L) (avail (inp w1 sock))
               else r2 = None"
          by simp_all
        define s2 where "s2 = inp w2 sock"
        have w2s: "w2 = w1\<lparr>inp := (inp w1)(sock := s2)\<rparr>" unfolding s2_def by (rule w2)
        have "w2 = w\<lparr>inp := (inp w)(sock := s2)\<rparr>" unfolding w2s w1s by simp
        then have w2w: "w2 = w\<lparr>inp := (inp w)(sock := inp w2 sock)\<rparr>" unfolding s2_def .
        from assms h r1 pos fitsmem hl h2 have rr: "(r, w') =
            (case r2 of None \<Rightarrow> (Inr None, w2)
             | Some buf \<Rightarrow> (case Deserialize buf of Inl e \<Rightarrow> (Inr None, w2)
                             | Inr msg \<Rightarrow> (Inr (Some msg), w2)))"
          by (simp add: ReceiveMessage_def Let_def)
        then have ww: "w' = w2" by (simp split: option.splits sum.splits)
        show ?thesis
        proof (cases "nat ?L \<le> length (avail (inp w1 sock))")
          case short: False
          with c2 rr have r: "r = Inr None" by simp
          from short a1 True have "length ?a < 4 + nat ?L" by simp
          then have "r = (let a = avail (inp w sock) in
            if length a < 4 then Inr None
            else let total_len = sint (be_word (take 4 a) :: 32 word) in
              if total_len \<le> 0 then Inr None
              else if heap_limit w < nat total_len then Inl bad_alloc
              else if length a < 4 + nat total_len then Inr None
              else (case Deserialize (take (nat total_len) (drop 4 a)) of
                      Inl e \<Rightarrow> Inr None | Inr msg \<Rightarrow> Inr (Some msg)))"
            using True pos fitsmem r by (simp add: Let_def)
          with w2w r show ?thesis unfolding ww by blast
        next
          case full: True
          with c2 have r2: "r2 = Some (take (nat ?L) (drop 4 ?a))"
            and a2: "avail (inp w2 sock) = drop (nat ?L) (drop 4 ?a)"
            using a1 by simp_all
          from full a1 True have nl: "\<not> length ?a < 4 + nat ?L" by simp
          from rr r2 have "r = (case Deserialize (take (nat ?L) (drop 4 ?a)) of
                      Inl e \<Rightarrow> Inr None | Inr msg \<Rightarrow> Inr (Some msg))"
            by (simp split: sum.splits)
          then have "r = (let a = avail (inp w sock) in
            if length a < 4 then Inr None
            else let total_len = sint (be_word (take 4 a) :: 32 word) in
              if total_len \<le> 0 then Inr None
              else if heap_limit w < nat total_len then Inl bad_alloc
              else if length a < 4 + nat total_len then Inr None
              else (case Deserialize (take (nat total_len) (drop 4 a)) of
                      Inl e \<Rightarrow> Inr None | Inr msg \<Rightarrow> Inr (Some msg)))"
            using True pos fitsmem nl by (simp add: Let_def)
          moreover have "avail (inp w2 sock) = drop (4 + nat ?L) ?a"
            unfolding a2 by (simp add: add.commute)
          ultimately show ?thesis using w2w unfolding ww by blast
        qed
      qed
    qed
  qed
  from goal show "w' = w\<lparr>inp := (inp w)(sock := inp w' sock)\<rparr>" by (rule conjunct1)
  from goal show "r = (let a = avail (inp w sock) in
          if length a < 4 then Inr None
          else let total_len = sint (be_word (take 4 a) :: 32 word) in
            if total_len \<le> 0 then Inr None
            else if heap_limit w < nat total_len then Inl bad_alloc
            else if length a < 4 + nat total_len then Inr None
            else (case Deserialize (take (nat total_len) (drop 4 a)) of
                    Inl e \<Rightarrow> Inr None | Inr msg \<Rightarrow> Inr (Some msg)))" by blast
  from goal show "r = Inr (Some m) \<Longrightarrow>
          avail (inp w' sock) =
            drop (4 + nat (sint (be_word (take 4 (avail (inp w sock))) :: 32 word)))
              (avail (inp w sock))" by blast
qed

lemma ReceiveMessage_result:
  "fst (ReceiveMessage sock w) =
     (let a = avail (inp w sock) in
      if length a < 4 then Inr None
      else let total_len = sint (be_word (take 4 a) :: 32 word) in
        if total_len \<le> 0 then Inr None
        else if heap_limit w < nat total_len then Inl bad_alloc
        else if length a < 4 + nat total_len then Inr None
        else (case Deserialize (take (nat total_len) (drop 4 a)) of
                Inl e \<Rightarrow> Inr None | Inr msg \<Rightarrow> Inr (Some msg)))"
  by (rule ReceiveMessage_avail(2)) (rule surjective_pairing)

lemma ReceiveMessage_examples:
  "fst (ReceiveMessage 4 truncated_world) = Inr None \<and>
   fst (ReceiveMessage 4 one_frame_world) = Inr (Some type99_msg)"
proof -
  have d: "Deserialize type99_payload = Inr type99_msg"
    using Deserialize_Serialize_append [of type99_msg "[]"]
    by (simp add: Serialize_type99_msg) (simp add: type99_msg_def)
  have "fst (ReceiveMessage 4 truncated_world) = Inr None"
    unfolding ReceiveMessage_result [of 4 truncated_world]
    by (simp add: truncated_world_def idle_world_def avail_def type99_payload_def
        be_word_def shl8_or_def)
  moreover have "fst (ReceiveMessage 4 one_frame_world) = Inr (Some type99_msg)"
    unfolding ReceiveMessage_result [of 4 one_frame_world]
    by (simp add: one_frame_world_def idle_world_def avail_def d be_word_def shl8_or_def)
       (simp add: type99_payload_def d [unfolded type99_payload_def])
  ultimately show ?thesis by simp
qed

text \<open>
  \<^bold>\<open>C4\<close> (frame integrity) does not hold of the code. \<^verbatim>\<open>ReceiveMessage\<close> allocates the
  payload buffer with the length the peer declared, before it enters the \<^verbatim>\<open>try\<close> block
  whose \<^verbatim>\<open>catch (...)\<close> is meant to keep every failure inside. On socket 4 of
  \<open>huge_length_world\<close> the peer declares \<open>2^31 - 1\<close> payload bytes, sends two and closes:
  fewer payload bytes than declared arrive, yet the result is not "none" but the
  exception \<^verbatim>\<open>std::bad_alloc\<close>, which leaves the function. (Whenever the allocation
  succeeds the result is as claimed, by \<open>ReceiveMessage_result\<close>: "none" for a short
  prefix, a non-positive length, a short payload or a payload that does not decode.)
\<close>

theorem ReceiveMessage_bad_alloc_escapes:
  "fst (ReceiveMessage 4 huge_length_world) = Inl bad_alloc"
  unfolding ReceiveMessage_result [of 4 huge_length_world]
  by (simp add: huge_length_world_def idle_world_def avail_def be_word_def shl8_or_def)

lemma SendMessage_written: "SendMessage sock msg w = (\<not> broken w sock, written sock msg w)"
proof -
  have n1: "write_int32 v \<noteq> []" for v
    using length_write_int32 [of v] by auto
  have n2: "Serialize msg \<noteq> []"
    using length_Serialize [of msg] by auto
  show ?thesis
    by (simp add: SendMessage_def send_all_def written_def frame_def n1 n2 Let_def)
qed

section \<open>Properties of the command processor and the router\<close>

lemma written_simps:
  "g_users (written s m w) = g_users w" "ticks (written s m w) = ticks w"
  "clock (written s m w) = clock w" "inp (written s m w) = inp w"
  "broken (written s m w) = broken w" "closed (written s m w) = closed w"
  "log_file (written s m w) = log_file w" "console_in (written s m w) = console_in w"
  by (simp_all add: written_def)

lemma out_written:
  "out (written s m w) s' = (if s' = s \<and> \<not> broken w s then out w s' @ frame m else out w s')"
  by (simp add: written_def)


text \<open>
  \<^bold>\<open>C5\<close> (command processor). The verdict is \<open>DISCONNECT\<close> if and only if the message
  is a \<open>COMMAND_RESPONSE\<close> with content \<open>BYE\<close>; then the only effect besides reading the
  clock is one \<open>COMMAND_RESPONSE\<close> with content \<open>GOODBYE\<close> offered to the requesting
  socket. For a message that is no user-list request, no private and no public message
  and not that \<open>BYE\<close>, the verdict is \<open>CONTINUE\<close> and the only effect is one
  \<open>COMMAND_RESPONSE\<close> with content \<open>UNKNOWN_COMMAND\<close> offered to the requesting socket.
\<close>

theorem Process_verdict:
  "(fst (Process msg client_socket w) = ''DISCONNECT'' \<longleftrightarrow>
      type msg = COMMAND_RESPONSE \<and> content msg = ''BYE'') \<and>
   (type msg = COMMAND_RESPONSE \<and> content msg = ''BYE'' \<longrightarrow>
      Process msg client_socket w =
        (''DISCONNECT'',
         written client_socket (server_command (clock w (ticks w)) ''GOODBYE'')
           (w\<lparr>ticks := Suc (ticks w)\<rparr>))) \<and>
   (type msg \<noteq> USER_LIST_REQUEST \<and> type msg \<noteq> PRIVATE_MESSAGE \<and>
    type msg \<noteq> PUBLIC_MESSAGE \<and> \<not> (type msg = COMMAND_RESPONSE \<and> content msg = ''BYE'') \<longrightarrow>
      Process msg client_socket w =
        (''CONTINUE'',
         written client_socket (server_command (clock w (ticks w)) ''UNKNOWN_COMMAND'')
           (w\<lparr>ticks := Suc (ticks w)\<rparr>)))"
  by (simp add: Process_def NowEpochMs_def SendMessage_written server_command_def
      MessageType_defs Let_def)

theorem Process_verdict_witness:
  "Process (server_command 0 ''BYE'') 4 idle_world =
     (''DISCONNECT'', written 4 (server_command 1000 ''GOODBYE'') (idle_world\<lparr>ticks := 1\<rparr>)) \<and>
   Process (server_command 0 ''hello'') 4 idle_world =
     (''CONTINUE'', written 4 (server_command 1000 ''UNKNOWN_COMMAND'') (idle_world\<lparr>ticks := 1\<rparr>))"
proof -
  have a: "type (server_command 0 ''BYE'') = COMMAND_RESPONSE \<and>
           content (server_command 0 ''BYE'') = ''BYE''"
    by (simp add: server_command_def)
  have b: "type (server_command 0 ''hello'') \<noteq> USER_LIST_REQUEST \<and>
      type (server_command 0 ''hello'') \<noteq> PRIVATE_MESSAGE \<and>
      type (server_command 0 ''hello'') \<noteq> PUBLIC_MESSAGE \<and>
      \<not> (type (server_command 0 ''hello'') = COMMAND_RESPONSE \<and>
         content (server_command 0 ''hello'') = ''BYE'')"
    by (simp add: server_command_def MessageType_defs)
  have c: "clock idle_world (ticks idle_world) = 1000" "Suc (ticks idle_world) = 1"
    by (simp_all add: idle_world_def)
  from Process_verdict [of "server_command 0 ''BYE''" 4 idle_world] a
  have "Process (server_command 0 ''BYE'') 4 idle_world =
     (''DISCONNECT'', written 4 (server_command 1000 ''GOODBYE'') (idle_world\<lparr>ticks := 1\<rparr>))"
    unfolding c by blast
  moreover from Process_verdict [of "server_command 0 ''hello''" 4 idle_world] b
  have "Process (server_command 0 ''hello'') 4 idle_world =
     (''CONTINUE'', written 4 (server_command 1000 ''UNKNOWN_COMMAND'') (idle_world\<lparr>ticks := 1\<rparr>))"
    unfolding c by blast
  ultimately show ?thesis by simp
qed

lemma GetSocket_absent:
  assumes "name \<notin> fst ` set (g_users w)"
  shows "GetSocket name w = - 1"
proof -
  from assms have "map_of (g_users w) name = None"
    by (simp add: map_of_eq_None_iff)
  then show ?thesis by (simp add: GetSocket_def)
qed

lemma GetSocket_present:
  "map_of (g_users w) name = Some (u, s) \<Longrightarrow> GetSocket name w = s"
  by (simp add: GetSocket_def)

lemma GetSocket_ticks: "GetSocket name (w\<lparr>ticks := t\<rparr>) = GetSocket name w"
  by (simp add: GetSocket_def)

text \<open>
  \<^bold>\<open>C6\<close> (private-message fallback). Registered sockets are descriptors, never the
  sentinel \<open>-1\<close>. When the target name is not in the registry, \<^verbatim>\<open>SendPrivate\<close> reads the
  clock and then: if the sender is not registered either, nothing is sent; otherwise the
  socket registered for the sender is offered exactly one \<open>COMMAND_RESPONSE\<close> whose content
  is \<open>USER_NOT_FOUND:\<close> followed by the target name. The output of every socket other
  than the sender's is unchanged.
\<close>

theorem SendPrivate_unknown_target:
  assumes "target_username msg \<notin> fst ` set (g_users w)"
    and "\<forall>e \<in> set (g_users w). snd (snd e) \<noteq> - 1"
  shows "SendPrivate msg w =
     (case map_of (g_users w) (sender_username msg) of
        None \<Rightarrow> w\<lparr>ticks := Suc (ticks w)\<rparr>
      | Some (user, sender_socket) \<Rightarrow>
          written sender_socket
            (server_command (clock w (ticks w)) (''USER_NOT_FOUND:'' @ target_username msg))
            (w\<lparr>ticks := Suc (ticks w)\<rparr>)) \<and>
     (\<forall>s. s \<noteq> GetSocket (sender_username msg) w \<longrightarrow> out (SendPrivate msg w) s = out w s)"
proof -
  have t: "GetSocket (target_username msg) w = - 1"
    using assms(1) by (rule GetSocket_absent)
  show ?thesis
  proof (cases "map_of (g_users w) (sender_username msg)")
    case None
    then have "GetSocket (sender_username msg) w = - 1"
      by (simp add: GetSocket_def)
    with None show ?thesis
      by (simp add: SendPrivate_def t NowEpochMs_def GetSocket_ticks Let_def)
  next
    case (Some e)
    obtain user s where e: "e = (user, s)" by (cases e)
    from Some e have "(sender_username msg, user, s) \<in> set (g_users w)"
      by (auto dest: map_of_SomeD)
    with assms(2) have "s \<noteq> - 1" by fastforce
    moreover from Some e have "GetSocket (sender_username msg) w = s"
      by (simp add: GetSocket_def)
    ultimately show ?thesis using Some e
      by (simp add: SendPrivate_def t NowEpochMs_def GetSocket_ticks Let_def
          SendMessage_written server_command_def out_written)
  qed
qed

theorem SendPrivate_unknown_target_witness:
  "SendPrivate pm_to_carol two_user_world =
     written 4 (server_command 1000 ''USER_NOT_FOUND:carol'') (two_user_world\<lparr>ticks := 1\<rparr>) \<and>
   out (SendPrivate pm_to_carol two_user_world) 5 = out two_user_world 5"
proof -
  have a: "target_username pm_to_carol \<notin> fst ` set (g_users two_user_world)"
    by (simp add: pm_to_carol_def two_user_world_def idle_world_def)
  have b: "\<forall>e \<in> set (g_users two_user_world). snd (snd e) \<noteq> - 1"
    by (simp add: two_user_world_def idle_world_def)
  have c: "GetSocket (sender_username pm_to_carol) two_user_world = 4"
    by (simp add: GetSocket_def pm_to_carol_def two_user_world_def idle_world_def)
  have m: "map_of (g_users two_user_world) (sender_username pm_to_carol) = Some (alice, 4)"
    by (simp add: pm_to_carol_def two_user_world_def idle_world_def)
  have k: "clock two_user_world (ticks two_user_world) = 1000"
    "Suc (ticks two_user_world) = 1" "target_username pm_to_carol = ''carol''"
    by (simp_all add: pm_to_carol_def two_user_world_def idle_world_def)
  note T = SendPrivate_unknown_target [OF a b]
  from T have "SendPrivate pm_to_carol two_user_world =
     written 4 (server_command 1000 ''USER_NOT_FOUND:carol'') (two_user_world\<lparr>ticks := 1\<rparr>)"
    unfolding m k by simp
  moreover from T have "(5::int) \<noteq> 4 \<longrightarrow>
      out (SendPrivate pm_to_carol two_user_world) 5 = out two_user_world 5"
    unfolding c by blast
  ultimately show ?thesis by simp
qed











section \<open>Properties of the authentication handshake and the session\<close>

lemma sendable_lengths:
  assumes "sendable m"
  shows "length (sender_username m) < 2 ^ 31" "length (target_username m) < 2 ^ 31"
    "length (content m) < 2 ^ 31"
  using assms by (simp_all add: sendable_def length_Serialize)

lemma frame_not_Nil: "frame m \<noteq> []"
  using length_write_int32 [of "of_nat (length (Serialize m))"] by (auto simp: frame_def)

lemma ReceiveMessage_frame:
  assumes a: "avail (inp w sock) = frame m @ rest" and s: "sendable m"
    and h: "length (Serialize m) \<le> heap_limit w"
  shows "\<exists>s'. avail s' = rest \<and>
           ReceiveMessage sock w = (Inr (Some m), w\<lparr>inp := (inp w)(sock := s')\<rparr>)"
proof -
  let ?S = "Serialize m"
  let ?n = "length ?S"
  obtain r w' where rw: "ReceiveMessage sock w = (r, w')"
    by (cases "ReceiveMessage sock w")
  have n: "?n < 2 ^ 31" using s by (simp add: sendable_def)
  have n24: "24 \<le> ?n" by (simp add: length_Serialize)
  let ?a = "avail (inp w sock)"
  have af: "?a = write_int32 (of_nat ?n) @ ?S @ rest"
    using a by (simp add: frame_def)
  have t4: "take 4 ?a = write_int32 (of_nat ?n)"
    unfolding af by (simp add: length_write_int32)
  have L: "sint (be_word (take 4 ?a) :: 32 word) = int ?n"
    unfolding t4 be_word_write_int32 using n by (rule sint_of_nat_small)
  have la: "length ?a = 4 + ?n + length rest"
    unfolding af by (simp add: length_write_int32)
  have pay: "take (nat (int ?n)) (drop 4 ?a) = ?S"
    unfolding af by (simp add: length_write_int32)
  have d: "Deserialize ?S = Inr m"
    using Deserialize_Serialize_append [OF sendable_lengths [OF s], of "[]"] by simp
  have c1: "\<not> length ?a < 4" unfolding la by simp
  have c2: "\<not> int ?n \<le> 0" using n24 by linarith
  have c3: "\<not> length ?a < 4 + nat (int ?n)" unfolding la by simp
  have cm: "\<not> heap_limit w < nat (int ?n)" using h by simp
  have r: "r = Inr (Some m)"
    unfolding ReceiveMessage_avail(2) [OF rw] Let_def L
    by (simp only: c1 c2 cm c3 pay d if_False sum.case)
  from ReceiveMessage_avail(3) [OF rw r]
  have "avail (inp w' sock) = drop (4 + nat (int ?n)) ?a"
    unfolding L .
  then have av: "avail (inp w' sock) = rest"
    unfolding af by (simp add: length_write_int32)
  define s' where "s' = inp w' sock"
  have e: "w' = w\<lparr>inp := (inp w)(sock := s')\<rparr>"
    unfolding s'_def by (rule ReceiveMessage_avail(1) [OF rw])
  have av': "avail s' = rest" unfolding s'_def by (rule av)
  have "(r, w') = (Inr (Some m), w\<lparr>inp := (inp w)(sock := s')\<rparr>)"
    using r e by (rule arg_cong2 [where f = Pair])
  with rw have "ReceiveMessage sock w = (Inr (Some m), w\<lparr>inp := (inp w)(sock := s')\<rparr>)"
    by (rule trans)
  with av' show ?thesis by blast
qed

lemma after_dialogue_simps:
  "g_users (after_dialogue w sock n s' msgs) = g_users w"
  "clock (after_dialogue w sock n s' msgs) = clock w"
  "ticks (after_dialogue w sock n s' msgs) = ticks w + n"
  "broken (after_dialogue w sock n s' msgs) = broken w"
  "closed (after_dialogue w sock n s' msgs) = closed w"
  "log_file (after_dialogue w sock n s' msgs) = log_file w"
  "heap_limit (after_dialogue w sock n s' msgs) = heap_limit w"
  "inp (after_dialogue w sock n s' msgs) sock = s'"
  by (simp_all add: after_dialogue_def)

lemma after_dialogue_compose:
  "after_dialogue (after_dialogue w sock n s1 ms1) sock k s2 ms2 =
     after_dialogue w sock (n + k) s2 (ms1 @ ms2)"
  by (rule world.equality) (simp_all add: after_dialogue_def fun_eq_iff)

lemma Authenticate_loop_taken:
  assumes lt: "retries < kAuthMaxRetries"
    and av: "avail (inp w sock) = frame r @ rest"
    and s: "sendable r"
    and h: "length (Serialize r) \<le> heap_limit w"
    and taken: "\<not> CheckUniqueness (content r) w"
  shows "\<exists>s'. avail s' = rest \<and>
           Authenticate_loop sock retries w =
             Authenticate_loop sock (retries + 1)
               (after_dialogue w sock 2 s'
                  [server_command (clock w (ticks w)) ''ENTER_USERNAME'',
                   server_command (clock w (ticks w + 1)) ''USERNAME_TAKEN''])"
proof -
  let ?prompt = "server_command (clock w (ticks w)) ''ENTER_USERNAME''"
  define w2 where "w2 = written sock ?prompt (w\<lparr>ticks := Suc (ticks w)\<rparr>)"
  have "inp w2 = inp w" by (simp add: w2_def written_simps)
  with av have av2: "avail (inp w2 sock) = frame r @ rest" by simp
  have h2: "length (Serialize r) \<le> heap_limit w2"
    using h by (simp add: w2_def written_def)
  from ReceiveMessage_frame [OF av2 s h2] obtain s' where
    s': "avail s' = rest" and
    rcv: "ReceiveMessage sock w2 = (Inr (Some r), w2\<lparr>inp := (inp w2)(sock := s')\<rparr>)"
    by blast
  define w3 where "w3 = w2\<lparr>inp := (inp w2)(sock := s')\<rparr>"
  have g3: "g_users w3 = g_users w" by (simp add: w3_def w2_def written_simps)
  then have t3: "\<not> CheckUniqueness (content r) w3"
    using taken by (simp add: CheckUniqueness_def)
  let ?taken = "server_command (clock w (ticks w + 1)) ''USERNAME_TAKEN''"
  have k3: "clock w3 (ticks w3) = clock w (ticks w + 1)"
    by (simp add: w3_def w2_def written_simps)
  have step: "Authenticate_loop sock retries w =
      Authenticate_loop sock (retries + 1) (written sock ?taken (w3\<lparr>ticks := Suc (ticks w3)\<rparr>))"
    apply (subst Authenticate_loop.simps)
    apply (simp add: lt MakeServerCommand_def NowEpochMs_def SendMessage_written
        server_command_def [symmetric] w2_def [symmetric] rcv w3_def [symmetric] t3 k3)
    done
  have "written sock ?taken (w3\<lparr>ticks := Suc (ticks w3)\<rparr>) =
          after_dialogue w sock 2 s' [?prompt, ?taken]"
    by (rule world.equality)
       (simp_all add: w3_def w2_def written_def after_dialogue_def fun_eq_iff)
  with step s' show ?thesis by auto
qed

lemma Authenticate_loop_exhausted:
  "Authenticate_loop sock kAuthMaxRetries w =
     (Inr None, after_dialogue w sock 1 (inp w sock)
              [server_command (clock w (ticks w)) ''AUTH_FAILED''])"
proof -
  have "written sock (server_command (clock w (ticks w)) ''AUTH_FAILED'')
          (w\<lparr>ticks := Suc (ticks w)\<rparr>) =
        after_dialogue w sock 1 (inp w sock)
          [server_command (clock w (ticks w)) ''AUTH_FAILED'']"
    by (rule world.equality) (simp_all add: written_def after_dialogue_def fun_eq_iff)
  then show ?thesis
    apply (subst Authenticate_loop.simps)
    apply (simp add: MakeServerCommand_def NowEpochMs_def SendMessage_written
        server_command_def [symmetric])
    done
qed

lemma Authenticate_three_failures_run:
  assumes av: "avail (inp w sock) = frame r1 @ frame r2 @ frame r3 @ rest"
    and s: "sendable r1" "sendable r2" "sendable r3"
    and h: "length (Serialize r1) \<le> heap_limit w" "length (Serialize r2) \<le> heap_limit w"
      "length (Serialize r3) \<le> heap_limit w"
    and taken: "\<not> CheckUniqueness (content r1) w" "\<not> CheckUniqueness (content r2) w"
      "\<not> CheckUniqueness (content r3) w"
  shows "\<exists>s' w'.
     avail s' = rest \<and>
     w' = after_dialogue w sock 7 s'
            [server_command (clock w (ticks w)) ''ENTER_USERNAME'',
             server_command (clock w (ticks w + 1)) ''USERNAME_TAKEN'',
             server_command (clock w (ticks w + 2)) ''ENTER_USERNAME'',
             server_command (clock w (ticks w + 3)) ''USERNAME_TAKEN'',
             server_command (clock w (ticks w + 4)) ''ENTER_USERNAME'',
             server_command (clock w (ticks w + 5)) ''USERNAME_TAKEN'',
             server_command (clock w (ticks w + 6)) ''AUTH_FAILED''] \<and>
     Authenticate sock w = (Inr None, w') \<and>
     ServeClient sock w = Some (None, Close sock w') \<and>
     g_users (Close sock w') = g_users w \<and>
     log_file (Close sock w') = log_file w \<and>
     (\<forall>s. s \<noteq> sock \<longrightarrow> out (Close sock w') s = out w s) \<and>
     (0 \<le> sock \<longrightarrow> sock \<in> closed (Close sock w'))"
proof -
  let ?m1 = "[server_command (clock w (ticks w)) ''ENTER_USERNAME'',
              server_command (clock w (ticks w + 1)) ''USERNAME_TAKEN'']"
  let ?m2 = "[server_command (clock w (ticks w + 2)) ''ENTER_USERNAME'',
              server_command (clock w (ticks w + 3)) ''USERNAME_TAKEN'']"
  let ?m3 = "[server_command (clock w (ticks w + 4)) ''ENTER_USERNAME'',
              server_command (clock w (ticks w + 5)) ''USERNAME_TAKEN'']"
  let ?m4 = "[server_command (clock w (ticks w + 6)) ''AUTH_FAILED'']"
  have k: "(0::int) < kAuthMaxRetries" "(1::int) < kAuthMaxRetries" "(2::int) < kAuthMaxRetries"
    by (simp_all add: kAuthMaxRetries_def)
  from Authenticate_loop_taken [OF k(1) av s(1) h(1) taken(1)] obtain s1 where
    a1: "avail s1 = frame r2 @ frame r3 @ rest" and
    e1: "Authenticate_loop sock 0 w = Authenticate_loop sock 1 (after_dialogue w sock 2 s1 ?m1)"
    by auto
  define w1 where "w1 = after_dialogue w sock 2 s1 ?m1"
  have i1: "avail (inp w1 sock) = frame r2 @ frame r3 @ rest"
    by (simp add: w1_def after_dialogue_simps a1)
  have t1: "\<not> CheckUniqueness (content r2) w1"
    using taken(2) by (simp add: CheckUniqueness_def w1_def after_dialogue_simps)
  have h1: "length (Serialize r2) \<le> heap_limit w1"
    using h(2) by (simp add: w1_def after_dialogue_simps)
  from Authenticate_loop_taken [OF k(2) i1 s(2) h1 t1] obtain s2 where
    a2: "avail s2 = frame r3 @ rest" and
    e2: "Authenticate_loop sock 1 w1 = Authenticate_loop sock 2
           (after_dialogue w1 sock 2 s2
              [server_command (clock w1 (ticks w1)) ''ENTER_USERNAME'',
               server_command (clock w1 (ticks w1 + 1)) ''USERNAME_TAKEN''])"
    by auto
  define w2 where "w2 = after_dialogue w sock 4 s2 (?m1 @ ?m2)"
  have w2eq: "after_dialogue w1 sock 2 s2
              [server_command (clock w1 (ticks w1)) ''ENTER_USERNAME'',
               server_command (clock w1 (ticks w1 + 1)) ''USERNAME_TAKEN''] = w2"
    unfolding w1_def w2_def after_dialogue_compose
    by (simp add: after_dialogue_simps eval_nat_numeral)
  have i2: "avail (inp w2 sock) = frame r3 @ rest"
    by (simp add: w2_def after_dialogue_simps a2)
  have t2: "\<not> CheckUniqueness (content r3) w2"
    using taken(3) by (simp add: CheckUniqueness_def w2_def after_dialogue_simps)
  have h2: "length (Serialize r3) \<le> heap_limit w2"
    using h(3) by (simp add: w2_def after_dialogue_simps)
  from Authenticate_loop_taken [OF k(3) i2 s(3) h2 t2] obtain s3 where
    a3: "avail s3 = rest" and
    e3: "Authenticate_loop sock 2 w2 = Authenticate_loop sock 3
           (after_dialogue w2 sock 2 s3
              [server_command (clock w2 (ticks w2)) ''ENTER_USERNAME'',
               server_command (clock w2 (ticks w2 + 1)) ''USERNAME_TAKEN''])"
    by auto
  define w3 where "w3 = after_dialogue w sock 6 s3 (?m1 @ ?m2 @ ?m3)"
  have w3eq: "after_dialogue w2 sock 2 s3
              [server_command (clock w2 (ticks w2)) ''ENTER_USERNAME'',
               server_command (clock w2 (ticks w2 + 1)) ''USERNAME_TAKEN''] = w3"
    unfolding w2_def w3_def after_dialogue_compose
    by (simp add: after_dialogue_simps eval_nat_numeral)
  define w' where "w' = after_dialogue w sock 7 s3 (?m1 @ ?m2 @ ?m3 @ ?m4)"
  have e4: "Authenticate_loop sock 3 w3 = (Inr None, w')"
    using Authenticate_loop_exhausted [of sock w3]
    unfolding w3_def w'_def after_dialogue_compose
    by (simp add: after_dialogue_simps kAuthMaxRetries_def eval_nat_numeral)
  have auth: "Authenticate sock w = (Inr None, w')"
    unfolding Authenticate_def e1 w1_def [symmetric] e2 w2eq e3 w3eq e4 ..
  have serve: "ServeClient sock w = Some (None, Close sock w')"
    by (simp add: ServeClient_def auth)
  have f: "g_users (Close sock w') = g_users w" "log_file (Close sock w') = log_file w"
    "\<forall>s. s \<noteq> sock \<longrightarrow> out (Close sock w') s = out w s"
    "0 \<le> sock \<longrightarrow> sock \<in> closed (Close sock w')"
    by (simp_all add: Close_def w'_def after_dialogue_def)
  have "w' = after_dialogue w sock 7 s3
            [server_command (clock w (ticks w)) ''ENTER_USERNAME'',
             server_command (clock w (ticks w + 1)) ''USERNAME_TAKEN'',
             server_command (clock w (ticks w + 2)) ''ENTER_USERNAME'',
             server_command (clock w (ticks w + 3)) ''USERNAME_TAKEN'',
             server_command (clock w (ticks w + 4)) ''ENTER_USERNAME'',
             server_command (clock w (ticks w + 5)) ''USERNAME_TAKEN'',
             server_command (clock w (ticks w + 6)) ''AUTH_FAILED'']"
    by (simp add: w'_def)
  with a3 auth serve f show ?thesis by blast
qed

lemma after_dialogue_same_registry:
  "(after_dialogue w sock n s' msgs)\<lparr>g_users := g_users w\<rparr> = after_dialogue w sock n s' msgs"
  by (rule world.equality) (simp_all add: after_dialogue_def)

lemma after_dialogue_compose_registry:
  "(after_dialogue (after_dialogue w sock n s1 ms1) sock k s2 ms2)\<lparr>g_users := g\<rparr> =
     (after_dialogue w sock (n + k) s2 (ms1 @ ms2))\<lparr>g_users := g\<rparr>"
  by (simp add: after_dialogue_compose)

lemma Authenticate_loop_iteration:
  assumes lt: "retries < kAuthMaxRetries"
  shows "(\<exists>s'. Authenticate_loop sock retries w =
            Authenticate_loop sock (retries + 1)
              (after_dialogue w sock 2 s'
                 [server_command (clock w (ticks w)) ''ENTER_USERNAME'',
                  server_command (clock w (ticks w + 1)) ''USERNAME_TAKEN''])) \<or>
         (\<exists>r n s' msgs g.
            Authenticate_loop sock retries w = (r, (after_dialogue w sock n s' msgs)\<lparr>g_users := g\<rparr>) \<and>
            prompts msgs \<le> 1)"
proof -
  let ?prompt = "server_command (clock w (ticks w)) ''ENTER_USERNAME''"
  define w2 where "w2 = written sock ?prompt (w\<lparr>ticks := Suc (ticks w)\<rparr>)"
  obtain r3 w3 where rcv: "ReceiveMessage sock w2 = (r3, w3)"
    by (cases "ReceiveMessage sock w2")
  define s' where "s' = inp w3 sock"
  have w3: "w3 = w2\<lparr>inp := (inp w2)(sock := s')\<rparr>"
    unfolding s'_def by (rule ReceiveMessage_avail(1) [OF rcv])
  have one: "w3 = after_dialogue w sock 1 s' [?prompt]"
    unfolding w3 w2_def
    by (rule world.equality) (simp_all add: written_def after_dialogue_def fun_eq_iff)
  have p1: "prompts [?prompt] \<le> 1" by (simp add: prompts_def)
  have k3: "clock w3 (ticks w3) = clock w (ticks w + 1)"
    "clock w3 (Suc (ticks w3)) = clock w (ticks w + 2)"
    by (simp_all add: w3 w2_def written_simps)
  show ?thesis
  proof (cases r3)
    case (Inl e)
    have "Authenticate_loop sock retries w = (Inl e, w3)"
      apply (subst Authenticate_loop.simps)
      apply (simp add: lt MakeServerCommand_def NowEpochMs_def SendMessage_written
          server_command_def [symmetric] w2_def [symmetric] rcv Inl)
      done
    then have "Authenticate_loop sock retries w =
        (Inl e, (after_dialogue w sock 1 s' [?prompt])\<lparr>g_users := g_users w\<rparr>)"
      unfolding after_dialogue_same_registry one .
    with p1 show ?thesis by blast
  next
    case (Inr ro)
    show ?thesis
    proof (cases ro)
      case None
      have "Authenticate_loop sock retries w = (Inr None, w3)"
        apply (subst Authenticate_loop.simps)
        apply (simp add: lt MakeServerCommand_def NowEpochMs_def SendMessage_written
            server_command_def [symmetric] w2_def [symmetric] rcv Inr None)
        done
      then have "Authenticate_loop sock retries w =
          (Inr None, (after_dialogue w sock 1 s' [?prompt])\<lparr>g_users := g_users w\<rparr>)"
        unfolding after_dialogue_same_registry one .
      with p1 show ?thesis by blast
    next
      case (Some reply)
      show ?thesis
      proof (cases "CheckUniqueness (content reply) w3")
        case free: True
        define user where "user = \<lparr>user_id = sock, username = content reply,
            connected = True, joined_at = clock w (ticks w + 1)\<rparr>"
        let ?ok = "server_command (clock w (ticks w + 2)) ''USERNAME_ACCEPTED''"
        have step: "Authenticate_loop sock retries w =
            (Inr (Some user),
             written sock ?ok ((AddUser user sock (w3\<lparr>ticks := Suc (ticks w3)\<rparr>))
                \<lparr>ticks := Suc (Suc (ticks w3))\<rparr>))"
          apply (subst Authenticate_loop.simps)
          apply (simp add: lt MakeServerCommand_def NowEpochMs_def SendMessage_written
              server_command_def [symmetric] w2_def [symmetric] rcv Inr Some free k3
              user_def Let_def AddUser_def)
          done
        have "written sock ?ok ((AddUser user sock (w3\<lparr>ticks := Suc (ticks w3)\<rparr>))
                \<lparr>ticks := Suc (Suc (ticks w3))\<rparr>) =
              (after_dialogue w sock 3 s' [?prompt, ?ok])
                \<lparr>g_users := AList.update (content reply) (user, sock) (g_users w)\<rparr>"
          unfolding w3 w2_def
          by (rule world.equality)
             (simp_all add: written_def after_dialogue_def AddUser_def fun_eq_iff user_def)
        with step have "Authenticate_loop sock retries w =
            (Inr (Some user), (after_dialogue w sock 3 s' [?prompt, ?ok])
                \<lparr>g_users := AList.update (content reply) (user, sock) (g_users w)\<rparr>)"
          by simp
        moreover have "prompts [?prompt, ?ok] \<le> 1"
          by (simp add: prompts_def server_command_def)
        ultimately show ?thesis by blast
      next
        case taken: False
        let ?taken = "server_command (clock w (ticks w + 1)) ''USERNAME_TAKEN''"
        have step: "Authenticate_loop sock retries w =
            Authenticate_loop sock (retries + 1)
              (written sock ?taken (w3\<lparr>ticks := Suc (ticks w3)\<rparr>))"
          apply (subst Authenticate_loop.simps)
          apply (simp add: lt MakeServerCommand_def NowEpochMs_def SendMessage_written
              server_command_def [symmetric] w2_def [symmetric] rcv Inr Some taken k3)
          done
        have "written sock ?taken (w3\<lparr>ticks := Suc (ticks w3)\<rparr>) =
                after_dialogue w sock 2 s' [?prompt, ?taken]"
          unfolding w3 w2_def
          by (rule world.equality)
             (simp_all add: written_def after_dialogue_def fun_eq_iff)
        with step show ?thesis by auto
      qed
    qed
  qed
qed

lemma Authenticate_loop_prompts:
  assumes "k \<le> 3"
  shows "\<exists>r n s' msgs g.
           Authenticate_loop sock (kAuthMaxRetries - int k) w =
             (r, (after_dialogue w sock n s' msgs)\<lparr>g_users := g\<rparr>) \<and>
           prompts msgs \<le> k"
  using assms
proof (induction k arbitrary: w)
  case 0
  have "Authenticate_loop sock kAuthMaxRetries w =
     (Inr None, (after_dialogue w sock 1 (inp w sock)
              [server_command (clock w (ticks w)) ''AUTH_FAILED''])\<lparr>g_users := g_users w\<rparr>)"
    unfolding after_dialogue_same_registry by (rule Authenticate_loop_exhausted)
  moreover have "prompts [server_command (clock w (ticks w)) ''AUTH_FAILED''] \<le> 0"
    by (simp add: prompts_def server_command_def)
  ultimately show ?case by (simp del: One_nat_def) blast
next
  case (Suc k)
  let ?retries = "kAuthMaxRetries - int (Suc k)"
  have lt: "?retries < kAuthMaxRetries" by simp
  have nx: "?retries + 1 = kAuthMaxRetries - int k" by simp
  let ?two = "[server_command (clock w (ticks w)) ''ENTER_USERNAME'',
               server_command (clock w (ticks w + 1)) ''USERNAME_TAKEN'']"
  from Authenticate_loop_iteration [OF lt, of sock w]
  show ?case
  proof
    assume "\<exists>s'. Authenticate_loop sock ?retries w =
            Authenticate_loop sock (?retries + 1) (after_dialogue w sock 2 s' ?two)"
    then obtain s' where e: "Authenticate_loop sock ?retries w =
        Authenticate_loop sock (kAuthMaxRetries - int k) (after_dialogue w sock 2 s' ?two)"
      unfolding nx by blast
    from Suc.prems have "k \<le> 3" by simp
    from Suc.IH [OF this, of "after_dialogue w sock 2 s' ?two"]
    obtain r n s2 msgs g where
      i: "Authenticate_loop sock (kAuthMaxRetries - int k) (after_dialogue w sock 2 s' ?two) =
            (r, (after_dialogue (after_dialogue w sock 2 s' ?two) sock n s2 msgs)\<lparr>g_users := g\<rparr>)"
      and p: "prompts msgs \<le> k"
      by blast
    have "Authenticate_loop sock ?retries w =
        (r, (after_dialogue w sock (2 + n) s2 (?two @ msgs))\<lparr>g_users := g\<rparr>)"
      unfolding e i after_dialogue_compose_registry ..
    moreover have "prompts (?two @ msgs) \<le> Suc k"
      using p by (simp add: prompts_def server_command_def)
    ultimately show ?thesis by blast
  next
    assume "\<exists>r n s' msgs g.
            Authenticate_loop sock ?retries w = (r, (after_dialogue w sock n s' msgs)\<lparr>g_users := g\<rparr>) \<and>
            prompts msgs \<le> 1"
    then obtain r n s' msgs g where
      "Authenticate_loop sock ?retries w = (r, (after_dialogue w sock n s' msgs)\<lparr>g_users := g\<rparr>)"
      "prompts msgs \<le> 1"
      by blast
    moreover then have "prompts msgs \<le> Suc k" by simp
    ultimately show ?thesis by blast
  qed
qed

lemma Authenticate_prompts:
  "\<exists>r n s' msgs g.
     Authenticate sock w = (r, (after_dialogue w sock n s' msgs)\<lparr>g_users := g\<rparr>) \<and>
     prompts msgs \<le> 3"
  using Authenticate_loop_prompts [of 3 sock w]
  by (simp add: Authenticate_def kAuthMaxRetries_def)

text \<open>
  \<^bold>\<open>C7\<close> (authentication exhausted). In every run \<^verbatim>\<open>Authenticate\<close> only reads the clock,
  consumes input of the client's socket, offers messages to that socket and possibly
  changes the registry; among the messages offered there are at most three username
  prompts. Suppose the client answers the first three prompts with frames \<open>r1\<close>, \<open>r2\<close>,
  \<open>r3\<close> (each short enough for the 32-bit frame length, and the buffer for it can be
  allocated) whose candidate names all fail the uniqueness check. Then \<^verbatim>\<open>Authenticate\<close>
  offers to the client's socket, in this order, the prompt and \<open>USERNAME_TAKEN\<close> three
  times and then \<open>AUTH_FAILED\<close>, and returns no user. It reads exactly these three
  frames: whatever the client sent after them (\<open>rest\<close>) is still unread, so there is no
  fourth attempt. \<^verbatim>\<open>ServeClient\<close> then only closes the socket: the registry and the log
  are as before, no other socket is written to (no join or leave broadcast), and the
  socket is closed.
\<close>

theorem Authenticate_at_most_three_attempts:
  "(\<exists>r n s' msgs g.
      Authenticate sock w = (r, (after_dialogue w sock n s' msgs)\<lparr>g_users := g\<rparr>) \<and>
      prompts msgs \<le> 3) \<and>
   (avail (inp w sock) = frame r1 @ frame r2 @ frame r3 @ rest \<and>
    sendable r1 \<and> sendable r2 \<and> sendable r3 \<and>
    length (Serialize r1) \<le> heap_limit w \<and> length (Serialize r2) \<le> heap_limit w \<and>
    length (Serialize r3) \<le> heap_limit w \<and>
    \<not> CheckUniqueness (content r1) w \<and> \<not> CheckUniqueness (content r2) w \<and>
    \<not> CheckUniqueness (content r3) w \<longrightarrow>
    (\<exists>s' w'.
       avail s' = rest \<and>
       w' = after_dialogue w sock 7 s'
              [server_command (clock w (ticks w)) ''ENTER_USERNAME'',
               server_command (clock w (ticks w + 1)) ''USERNAME_TAKEN'',
               server_command (clock w (ticks w + 2)) ''ENTER_USERNAME'',
               server_command (clock w (ticks w + 3)) ''USERNAME_TAKEN'',
               server_command (clock w (ticks w + 4)) ''ENTER_USERNAME'',
               server_command (clock w (ticks w + 5)) ''USERNAME_TAKEN'',
               server_command (clock w (ticks w + 6)) ''AUTH_FAILED''] \<and>
       Authenticate sock w = (Inr None, w') \<and>
       ServeClient sock w = Some (None, Close sock w') \<and>
       g_users (Close sock w') = g_users w \<and>
       log_file (Close sock w') = log_file w \<and>
       (\<forall>s. s \<noteq> sock \<longrightarrow> out (Close sock w') s = out w s) \<and>
       (0 \<le> sock \<longrightarrow> sock \<in> closed (Close sock w'))))"
proof (intro conjI impI)
  show "\<exists>r n s' msgs g.
      Authenticate sock w = (r, (after_dialogue w sock n s' msgs)\<lparr>g_users := g\<rparr>) \<and>
      prompts msgs \<le> 3"
    by (rule Authenticate_prompts)
next
  assume "avail (inp w sock) = frame r1 @ frame r2 @ frame r3 @ rest \<and>
    sendable r1 \<and> sendable r2 \<and> sendable r3 \<and>
    length (Serialize r1) \<le> heap_limit w \<and> length (Serialize r2) \<le> heap_limit w \<and>
    length (Serialize r3) \<le> heap_limit w \<and>
    \<not> CheckUniqueness (content r1) w \<and> \<not> CheckUniqueness (content r2) w \<and>
    \<not> CheckUniqueness (content r3) w"
  then show "\<exists>s' w'.
       avail s' = rest \<and>
       w' = after_dialogue w sock 7 s'
              [server_command (clock w (ticks w)) ''ENTER_USERNAME'',
               server_command (clock w (ticks w + 1)) ''USERNAME_TAKEN'',
               server_command (clock w (ticks w + 2)) ''ENTER_USERNAME'',
               server_command (clock w (ticks w + 3)) ''USERNAME_TAKEN'',
               server_command (clock w (ticks w + 4)) ''ENTER_USERNAME'',
               server_command (clock w (ticks w + 5)) ''USERNAME_TAKEN'',
               server_command (clock w (ticks w + 6)) ''AUTH_FAILED''] \<and>
       Authenticate sock w = (Inr None, w') \<and>
       ServeClient sock w = Some (None, Close sock w') \<and>
       g_users (Close sock w') = g_users w \<and>
       log_file (Close sock w') = log_file w \<and>
       (\<forall>s. s \<noteq> sock \<longrightarrow> out (Close sock w') s = out w s) \<and>
       (0 \<le> sock \<longrightarrow> sock \<in> closed (Close sock w'))"
    by (elim conjE) (rule Authenticate_three_failures_run; assumption)
qed

theorem Authenticate_at_most_three_attempts_witness:
  "fst (Authenticate 6 stubborn_world) = Inr None \<and>
   g_users (snd (Authenticate 6 stubborn_world)) = g_users stubborn_world \<and>
   avail (inp (snd (Authenticate 6 stubborn_world)) 6) = frame alice_reply \<and>
   (\<exists>w'. ServeClient 6 stubborn_world = Some (None, w') \<and> 6 \<in> closed w' \<and>
         g_users w' = g_users stubborn_world \<and> out w' 4 = out stubborn_world 4)"
proof -
  have av: "avail (inp stubborn_world 6) =
      frame alice_reply @ frame alice_reply @ frame alice_reply @ frame alice_reply"
    by (simp add: stubborn_world_def avail_def frame_not_Nil)
  have s: "sendable alice_reply"
    by (simp add: sendable_def length_Serialize alice_reply_def)
  have h: "length (Serialize alice_reply) \<le> heap_limit stubborn_world"
    by (simp add: length_Serialize alice_reply_def stubborn_world_def two_user_world_def
        idle_world_def)
  have t: "\<not> CheckUniqueness (content alice_reply) stubborn_world"
    by (simp add: CheckUniqueness_def alice_reply_def stubborn_world_def two_user_world_def
        idle_world_def)
  from Authenticate_at_most_three_attempts
    [of 6 stubborn_world alice_reply alice_reply alice_reply "frame alice_reply"]
    av s h t
  obtain s' w' where
    a: "avail s' = frame alice_reply" and
    w': "w' = after_dialogue stubborn_world 6 7 s'
            [server_command (clock stubborn_world (ticks stubborn_world)) ''ENTER_USERNAME'',
             server_command (clock stubborn_world (ticks stubborn_world + 1)) ''USERNAME_TAKEN'',
             server_command (clock stubborn_world (ticks stubborn_world + 2)) ''ENTER_USERNAME'',
             server_command (clock stubborn_world (ticks stubborn_world + 3)) ''USERNAME_TAKEN'',
             server_command (clock stubborn_world (ticks stubborn_world + 4)) ''ENTER_USERNAME'',
             server_command (clock stubborn_world (ticks stubborn_world + 5)) ''USERNAME_TAKEN'',
             server_command (clock stubborn_world (ticks stubborn_world + 6)) ''AUTH_FAILED'']" and
    auth: "Authenticate 6 stubborn_world = (Inr None, w')" and
    serve: "ServeClient 6 stubborn_world = Some (None, Close 6 w')" and
    g: "g_users (Close 6 w') = g_users stubborn_world" and
    o: "\<forall>s. s \<noteq> 6 \<longrightarrow> out (Close 6 w') s = out stubborn_world s" and
    c: "(0::int) \<le> 6 \<longrightarrow> 6 \<in> closed (Close 6 w')"
    by blast
  have "inp w' 6 = s'" "g_users w' = g_users stubborn_world"
    unfolding w' by (simp_all add: after_dialogue_simps)
  with a auth have "fst (Authenticate 6 stubborn_world) = Inr None"
    "g_users (snd (Authenticate 6 stubborn_world)) = g_users stubborn_world"
    "avail (inp (snd (Authenticate 6 stubborn_world)) 6) = frame alice_reply"
    by simp_all
  moreover from serve g o c
  have "\<exists>w'. ServeClient 6 stubborn_world = Some (None, w') \<and> 6 \<in> closed w' \<and>
         g_users w' = g_users stubborn_world \<and> out w' 4 = out stubborn_world 4"
    by auto
  ultimately show ?thesis by blast
qed

text \<open>
  \<^bold>\<open>C9\<close> (stamping of incoming messages). In the receive loop every received message
  is passed to the command processor in its stamped form and in no other: the sender is
  the session's user name, whatever the client wrote there; the timestamp is the current
  time when the received timestamp is 0 and the received timestamp otherwise; type,
  target and content are those received.
\<close>

theorem incoming_stamped:
  "sender_username (fst (stamp_incoming user incoming w)) = username user \<and>
   timestamp (fst (stamp_incoming user incoming w)) =
     (if timestamp incoming = 0 then clock w (ticks w) else timestamp incoming) \<and>
   type (fst (stamp_incoming user incoming w)) = type incoming \<and>
   target_username (fst (stamp_incoming user incoming w)) = target_username incoming \<and>
   content (fst (stamp_incoming user incoming w)) = content incoming \<and>
   ServeClient_loop user sock w0 =
     (if connected user then
        (case ReceiveMessage sock w0 of
           (Inl e, w1) \<Rightarrow> Some (Some e, w1)
         | (Inr None, w1) \<Rightarrow> Some (None, w1)
         | (Inr (Some m), w1) \<Rightarrow>
             (case Process (fst (stamp_incoming user m w1)) sock
                     (snd (stamp_incoming user m w1)) of
                (result, w3) \<Rightarrow>
                  if result = ''DISCONNECT'' then Some (None, w3)
                  else ServeClient_loop user sock w3))
      else Some (None, w0))"
proof -
  have "ServeClient_loop user sock w0 =
     (if connected user then
        (case ReceiveMessage sock w0 of
           (Inl e, w1) \<Rightarrow> Some (Some e, w1)
         | (Inr None, w1) \<Rightarrow> Some (None, w1)
         | (Inr (Some m), w1) \<Rightarrow>
             (case Process (fst (stamp_incoming user m w1)) sock
                     (snd (stamp_incoming user m w1)) of
                (result, w3) \<Rightarrow>
                  if result = ''DISCONNECT'' then Some (None, w3)
                  else ServeClient_loop user sock w3))
      else Some (None, w0))"
    by (subst ServeClient_loop.simps) (simp split: prod.splits sum.splits option.splits)
  then show ?thesis
    by (simp add: stamp_incoming_def NowEpochMs_def Let_def)
qed

theorem incoming_stamped_witness:
  "sender_username (fst (stamp_incoming alice unstamped_msg idle_world)) = ''alice'' \<and>
   timestamp (fst (stamp_incoming alice unstamped_msg idle_world)) = 1000 \<and>
   content (fst (stamp_incoming alice unstamped_msg idle_world)) = ''hi'' \<and>
   timestamp (fst (stamp_incoming alice (unstamped_msg\<lparr>timestamp := 77\<rparr>) idle_world)) = 77"
proof -
  note a = incoming_stamped [of alice unstamped_msg idle_world]
  note b = incoming_stamped [of alice "unstamped_msg\<lparr>timestamp := 77\<rparr>" idle_world]
  have v: "username alice = ''alice''" "timestamp unstamped_msg = 0"
    "clock idle_world (ticks idle_world) = 1000" "content unstamped_msg = ''hi''"
    "timestamp (unstamped_msg\<lparr>timestamp := 77\<rparr>) = 77"
    by (simp_all add: alice_def unstamped_msg_def idle_world_def)
  from a have "sender_username (fst (stamp_incoming alice unstamped_msg idle_world)) = ''alice''"
    unfolding v by blast
  moreover from a
  have "timestamp (fst (stamp_incoming alice unstamped_msg idle_world)) = 1000"
    unfolding v by simp
  moreover from a
  have "content (fst (stamp_incoming alice unstamped_msg idle_world)) = ''hi''"
    unfolding v by blast
  moreover from b
  have "timestamp (fst (stamp_incoming alice (unstamped_msg\<lparr>timestamp := 77\<rparr>) idle_world)) = 77"
    unfolding v by simp
  ultimately show ?thesis by blast
qed

section \<open>Properties of the client input loop\<close>

lemma string_find_None: "string_find line c = None \<longleftrightarrow> c \<notin> set line"
  by (induction line) auto

text \<open>
  \<^bold>\<open>C10\<close> (client input: \<open>@\<close> without a space). For a line that starts with \<open>@\<close> and
  contains no space, one pass of the input loop only reads the clock: nothing is written
  to the socket, the socket is not closed, and the loop goes on with the next line. The
  line is neither sent as a private message nor as a public one.
\<close>

theorem InputLoop_at_without_space:
  assumes "line \<noteq> []" and "hd line = CHR ''@''" and "CHR '' '' \<notin> set line"
  shows "InputLoop_body sock line w = (True, w\<lparr>ticks := Suc (ticks w)\<rparr>) \<and>
         (console_in w0 = line # rest \<longrightarrow>
            InputLoop sock w0 =
              InputLoop sock (w0\<lparr>console_in := rest, ticks := Suc (ticks w0)\<rparr>))"
proof -
  have nb: "line \<noteq> ''/bye''" "line \<noteq> ''/list''"
    using assms(2) by auto
  have f: "string_find line CHR '' '' = None"
    using assms(3) by (simp add: string_find_None)
  have body: "InputLoop_body sock line v = (True, v\<lparr>ticks := Suc (ticks v)\<rparr>)" for v
    using assms(1,2) nb f by (simp add: InputLoop_body_def NowEpochMs_def)
  have "console_in w0 = line # rest \<longrightarrow>
            InputLoop sock w0 =
              InputLoop sock (w0\<lparr>console_in := rest, ticks := Suc (ticks w0)\<rparr>)"
  proof
    assume c: "console_in w0 = line # rest"
    show "InputLoop sock w0 =
              InputLoop sock (w0\<lparr>console_in := rest, ticks := Suc (ticks w0)\<rparr>)"
      by (subst InputLoop.simps) (simp add: ReadLine_def c assms(1) body)
  qed
  with body [of w] show ?thesis by (rule conjI)
qed

theorem InputLoop_at_without_space_witness:
  "InputLoop_body 4 ''@carol'' idle_world = (True, idle_world\<lparr>ticks := 1\<rparr>) \<and>
   out (snd (InputLoop_body 4 ''@carol'' idle_world)) = out idle_world \<and>
   InputLoop 4 (idle_world\<lparr>console_in := [''@carol'', ''/bye'']\<rparr>) =
     InputLoop 4 (idle_world\<lparr>console_in := [''/bye''], ticks := 1\<rparr>)"
proof -
  have a: "''@carol'' \<noteq> []" "hd ''@carol'' = CHR ''@''" "CHR '' '' \<notin> set ''@carol''"
    by simp_all
  note T = InputLoop_at_without_space [OF a, of 4 idle_world
      "idle_world\<lparr>console_in := [''@carol'', ''/bye'']\<rparr>" "[''/bye'']"]
  have t: "Suc (ticks idle_world) = 1"
    "Suc (ticks (idle_world\<lparr>console_in := [''@carol'', ''/bye'']\<rparr>)) = 1"
    by (simp_all add: idle_world_def)
  from T have b: "InputLoop_body 4 ''@carol'' idle_world = (True, idle_world\<lparr>ticks := 1\<rparr>)"
    unfolding t by blast
  then have o: "out (snd (InputLoop_body 4 ''@carol'' idle_world)) = out idle_world"
    by simp
  from T have "InputLoop 4 (idle_world\<lparr>console_in := [''@carol'', ''/bye'']\<rparr>) =
     InputLoop 4 (idle_world\<lparr>console_in := [''/bye''], ticks := 1\<rparr>)"
    unfolding t by simp
  with b o show ?thesis by blast
qed

section \<open>Concurrent authentications of one name\<close>

text \<open>
  What \<^verbatim>\<open>Authenticate\<close> does for a reply whose name passes the check: the prompt, the
  check, then \<^verbatim>\<open>AddUser\<close> of the new user with the session's socket, and
  \<^verbatim>\<open>USERNAME_ACCEPTED\<close>. The check and the insertion are the two registry calls that
  \<open>auth_step\<close> makes, one per step.
\<close>

lemma Authenticate_loop_accepted:
  assumes lt: "retries < kAuthMaxRetries"
    and av: "avail (inp w sock) = frame r @ rest"
    and s: "sendable r"
    and h: "length (Serialize r) \<le> heap_limit w"
    and free: "CheckUniqueness (content r) w"
  shows "\<exists>s'. avail s' = rest \<and>
           Authenticate_loop sock retries w =
             (let user = \<lparr>user_id = sock, username = content r, connected = True,
                          joined_at = clock w (ticks w + 1)\<rparr>
              in (Inr (Some user),
                  AddUser user sock
                    (after_dialogue w sock 3 s'
                       [server_command (clock w (ticks w)) ''ENTER_USERNAME'',
                        server_command (clock w (ticks w + 2)) ''USERNAME_ACCEPTED''])))"
proof -
  let ?prompt = "server_command (clock w (ticks w)) ''ENTER_USERNAME''"
  define w2 where "w2 = written sock ?prompt (w\<lparr>ticks := Suc (ticks w)\<rparr>)"
  have "inp w2 = inp w" by (simp add: w2_def written_simps)
  with av have av2: "avail (inp w2 sock) = frame r @ rest" by simp
  have h2: "length (Serialize r) \<le> heap_limit w2"
    using h by (simp add: w2_def written_def)
  from ReceiveMessage_frame [OF av2 s h2] obtain s' where
    s': "avail s' = rest" and
    rcv: "ReceiveMessage sock w2 = (Inr (Some r), w2\<lparr>inp := (inp w2)(sock := s')\<rparr>)"
    by blast
  define w3 where "w3 = w2\<lparr>inp := (inp w2)(sock := s')\<rparr>"
  have g3: "g_users w3 = g_users w" by (simp add: w3_def w2_def written_simps)
  then have t3: "CheckUniqueness (content r) w3"
    using free by (simp add: CheckUniqueness_def)
  define user where "user = \<lparr>user_id = sock, username = content r, connected = True,
                          joined_at = clock w (ticks w + 1)\<rparr>"
  let ?ok = "server_command (clock w (ticks w + 2)) ''USERNAME_ACCEPTED''"
  have k3: "clock w3 (ticks w3) = clock w (ticks w + 1)"
    "clock w3 (Suc (ticks w3)) = clock w (ticks w + 2)"
    by (simp_all add: w3_def w2_def written_simps)
  have step: "Authenticate_loop sock retries w =
      (Inr (Some user),
       written sock ?ok ((AddUser user sock (w3\<lparr>ticks := Suc (ticks w3)\<rparr>))
          \<lparr>ticks := Suc (Suc (ticks w3))\<rparr>))"
    apply (subst Authenticate_loop.simps)
    apply (simp add: lt MakeServerCommand_def NowEpochMs_def SendMessage_written
        server_command_def [symmetric] w2_def [symmetric] rcv w3_def [symmetric] t3 k3
        user_def Let_def AddUser_def)
    done
  have "written sock ?ok ((AddUser user sock (w3\<lparr>ticks := Suc (ticks w3)\<rparr>))
          \<lparr>ticks := Suc (Suc (ticks w3))\<rparr>) =
        AddUser user sock (after_dialogue w sock 3 s' [?prompt, ?ok])"
    by (rule world.equality)
       (simp_all add: w3_def w2_def written_def after_dialogue_def AddUser_def fun_eq_iff
          user_def)
  with step s' show ?thesis unfolding user_def Let_def by auto
qed

lemma distinct_keys_AddUser:
  "distinct (map fst (g_users w)) \<Longrightarrow> distinct (map fst (g_users (AddUser user sock w)))"
  by (simp add: AddUser_def distinct_update)

lemma distinct_keys_auth_step:
  assumes "distinct (map fst (g_users w))"
  shows "distinct (map fst (g_users (snd (auth_step sock pc w))))"
  using assms
  by (cases pc) (simp_all add: auth_step_def NowEpochMs_def AddUser_def distinct_update Let_def)

lemma distinct_keys_run_schedule:
  assumes "distinct (map fst (g_users w))"
  shows "distinct (map fst (g_users (snd (run_schedule sched (sessions, w)))))"
  using assms
proof (induction sched arbitrary: sessions w)
  case Nil
  then show ?case by simp
next
  case (Cons i sched)
  show ?case
  proof (cases "i < length sessions")
    case False
    with Cons show ?thesis by simp
  next
    case True
    obtain sock pc where s: "sessions ! i = (sock, pc)" by (cases "sessions ! i")
    obtain pc' w' where a: "auth_step sock pc w = (pc', w')" by (cases "auth_step sock pc w")
    from distinct_keys_auth_step [OF Cons.prems, of sock pc] a
    have "distinct (map fst (g_users w'))" by simp
    from Cons.IH [OF this] True s a show ?thesis by simp
  qed
qed

lemma sequential_sessions_one_accepted:
  "fst (run_schedule [0, 0, 1, 1]
     ([(4, Candidate ''alice''), (5, Candidate ''alice'')], idle_world)) =
   [(4, Accepted \<lparr>user_id = 4, username = ''alice'', connected = True, joined_at = 1000\<rparr>),
    (5, Taken)]"
  by (simp add: auth_step_def CheckUniqueness_def NowEpochMs_def AddUser_def idle_world_def
      Let_def)

text \<open>
  \<^bold>\<open>C1\<close> (uniqueness under concurrency) does not hold of the code. Two sessions, on the
  sockets 4 and 5, both offer the name \<open>alice\<close> to an empty registry. In the schedule
  where both make their \<^verbatim>\<open>CheckUniqueness\<close> call before either makes its \<^verbatim>\<open>AddUser\<close>
  call, both checks return true and both sessions are accepted: each is sent
  \<^verbatim>\<open>USERNAME_ACCEPTED\<close> and gets its user back. The registry, being a map, still holds
  one entry for \<open>alice\<close> (lemma \<open>distinct_keys_run_schedule\<close>): the second \<^verbatim>\<open>AddUser\<close>
  has replaced the entry of the first session. When the sessions run one after the
  other, the second is answered \<^verbatim>\<open>USERNAME_TAKEN\<close> (lemma
  \<open>sequential_sessions_one_accepted\<close>).
\<close>

theorem Authenticate_race_both_accepted:
  "run_schedule [0, 1, 0, 1]
     ([(4, Candidate ''alice''), (5, Candidate ''alice'')], idle_world) =
   ([(4, Accepted \<lparr>user_id = 4, username = ''alice'', connected = True, joined_at = 1000\<rparr>),
     (5, Accepted \<lparr>user_id = 5, username = ''alice'', connected = True, joined_at = 1001\<rparr>)],
    idle_world\<lparr>ticks := 2,
      g_users := [(''alice'',
        \<lparr>user_id = 5, username = ''alice'', connected = True, joined_at = 1001\<rparr>, 5)]\<rparr>)"
  by (simp add: auth_step_def CheckUniqueness_def NowEpochMs_def AddUser_def idle_world_def
      Let_def)

end
